(* ===== verification/Prelude.thy ===== *)
theory Prelude
  imports Main "HOL-Library.Sublist"
begin

text \<open>
  Shared vocabulary of the development. Python's \<open>str\<close> is a sequence of Unicode code
  points, so a string of the program is a list of natural numbers (\<open>pystr\<close>), one per code
  point, and \<open>len\<close>, slicing and \<open>ljust\<close> count code points as Python does. A contact
  record of \<open>PhoneBookBot.phone_data\<close> is the pair \<open>(phone, name)\<close>.
  The collections declared here gather the definitions that concrete evaluations unfold
  (\<open>pystr_defs\<close>, \<open>regex_defs\<close>) and the facts that carry the well-formedness proofs
  of loaded records (\<open>wf_simps\<close>).
\<close>

type_synonym cp = nat
type_synonym pystr = "cp list"
type_synonym contact = "pystr \<times> pystr"

named_theorems pystr_defs "definitions of the Python string builtins, unfolded on concrete strings"
named_theorems regex_defs "definitions of the regular-expression matchers, unfolded on concrete strings"
named_theorems wf_simps "rewrite rules for the well-formedness predicates of records"

subsection \<open>Lists\<close>

lemma takeWhile_append_all [simp]:
  "list_all P xs \<Longrightarrow> takeWhile P (xs @ ys) = xs @ takeWhile P ys"
  by (simp add: list_all_iff takeWhile_append2)

lemma dropWhile_append_all [simp]:
  "list_all P xs \<Longrightarrow> dropWhile P (xs @ ys) = dropWhile P ys"
  by (simp add: list_all_iff dropWhile_append2)

lemma takeWhile_all [simp]:
  "list_all P xs \<Longrightarrow> takeWhile P xs = xs"
  by (simp add: list_all_iff takeWhile_eq_all_conv)

lemma dropWhile_all_Nil [simp]:
  "list_all P xs \<Longrightarrow> dropWhile P xs = []"
  by (simp add: list_all_iff dropWhile_eq_Nil_conv)

lemma prefix_iff_take: "prefix xs ys \<longleftrightarrow> take (length xs) ys = xs"
  by (metis append_eq_conv_conj append_take_drop_id prefix_def)

lemma dropWhile_Cons_not [simp]:
  "\<not> P x \<Longrightarrow> dropWhile P (x # xs) = x # xs"
  by simp

lemma rev_dropWhile_rev_snoc [simp]:
  "\<not> P x \<Longrightarrow> rev (dropWhile P (rev (xs @ [x]))) = xs @ [x]"
  by simp

lemma dropWhile_takeWhile_length:
  "length (takeWhile P xs) < length xs \<Longrightarrow> \<not> P (xs ! length (takeWhile P xs))"
  using nth_length_takeWhile by blast

lemma take_Suc_length_takeWhile:
  "i < length (takeWhile P xs) \<Longrightarrow> P (xs ! i)"
  by (metis nth_mem set_takeWhileD takeWhile_nth)

lemma list_all_take_takeWhile [simp]:
  "i \<le> length (takeWhile P xs) \<Longrightarrow> list_all P (take i xs)"
proof -
  assume "i \<le> length (takeWhile P xs)"
  then have "take i xs = take i (takeWhile P xs)"
    by (metis take_append take_eq_Nil2 takeWhile_dropWhile_id diff_is_0_eq append_Nil2)
  then show ?thesis
    by (simp add: list_all_iff) (meson in_set_takeD set_takeWhileD)
qed

lemma length_takeWhile_ge:
  "list_all P (take i xs) \<Longrightarrow> i \<le> length xs \<Longrightarrow> i \<le> length (takeWhile P xs)"
proof (induction xs arbitrary: i)
  case Nil
  then show ?case by simp
next
  case (Cons x xs)
  then show ?case by (cases i) auto
qed

lemma list_all_eq_replicate:
  "list_all (\<lambda>y. y = x) xs \<Longrightarrow> xs = replicate (length xs) x"
  by (induction xs) auto

lemma set_takeWhile_append_stop:
  assumes "\<not> P x"
  shows "set (takeWhile P (xs @ x # ys)) \<subseteq> set xs"
proof (induction xs)
  case Nil
  then show ?case using assms by simp
next
  case (Cons a xs)
  then show ?case by (cases "P a") auto
qed

lemma map_filter_append [simp]:
  "List.map_filter f (xs @ ys) = List.map_filter f xs @ List.map_filter f ys"
  by (induction xs) (simp_all split: option.splits)

subsection \<open>Options\<close>

lemma case_option_Some_eq [simp]:
  "(case x of None \<Rightarrow> None | Some r \<Rightarrow> Some r) = x"
  by (cases x) simp_all

end
