(* ===== verification/PyStr.thy ===== *)
theory PyStr
  imports Prelude
begin

text \<open>
  The Python 3.11 \<open>str\<close> builtins that \<open>src/bot.py\<close> calls, over code points
  (Unicode 14.0, the database of Python 3.11): the whitespace predicate behind \<open>str.strip\<close>
  and the regular-expression class \<open>\s\<close>, the decimal-digit predicate behind \<open>\d\<close>,
  \<open>str.strip\<close>, \<open>str.lower\<close>, the operator \<open>in\<close> on strings, \<open>str.replace\<close>
  and \<open>str.ljust\<close>. The tables were taken from CPython's own database and are exact, except
  that \<open>str.lower\<close> is modelled code point by code point: the context-dependent final-sigma
  rule of CPython (capital sigma after a cased letter becomes the final form) is not modelled.
\<close>

abbreviation TAB :: cp where "TAB \<equiv> 0x09"
abbreviation NL :: cp where "NL \<equiv> 0x0A"
abbreviation CR :: cp where "CR \<equiv> 0x0D"
abbreviation SPACE :: cp where "SPACE \<equiv> 0x20"

definition ascii :: "string \<Rightarrow> pystr" where
  "ascii s = map of_char s"

subsection \<open>Character classes\<close>

text \<open>\<open>Py_UNICODE_ISSPACE\<close>: used by \<open>str.strip()\<close> and by \<open>\s\<close> in a \<open>str\<close> pattern.\<close>

definition py_isspace :: "cp \<Rightarrow> bool" where
  "py_isspace c \<longleftrightarrow>
     (0x09 \<le> c \<and> c \<le> 0x0D) \<or> (0x1C \<le> c \<and> c \<le> 0x20) \<or> c = 0x85 \<or> c = 0xA0 \<or>
     c = 0x1680 \<or> (0x2000 \<le> c \<and> c \<le> 0x200A) \<or> c = 0x2028 \<or> c = 0x2029 \<or>
     c = 0x202F \<or> c = 0x205F \<or> c = 0x3000"

text \<open>\<open>Py_UNICODE_ISDECIMAL\<close> (general category Nd), used by \<open>\d\<close> in a \<open>str\<close> pattern:
  Nd consists of 66 runs of ten digits; \<open>nd_zeros\<close> lists the digit zero of each run.\<close>

definition nd_zeros :: "cp list" where
  "nd_zeros =
   [0x30, 0x660, 0x6F0, 0x7C0, 0x966, 0x9E6, 0xA66, 0xAE6, 0xB66, 0xBE6,
    0xC66, 0xCE6, 0xD66, 0xDE6, 0xE50, 0xED0, 0xF20, 0x1040, 0x1090, 0x17E0,
    0x1810, 0x1946, 0x19D0, 0x1A80, 0x1A90, 0x1B50, 0x1BB0, 0x1C40, 0x1C50, 0xA620,
    0xA8D0, 0xA900, 0xA9D0, 0xA9F0, 0xAA50, 0xABF0, 0xFF10, 0x104A0, 0x10D30, 0x11066,
    0x110F0, 0x11136, 0x111D0, 0x112F0, 0x11450, 0x114D0, 0x11650, 0x116C0, 0x11730, 0x118E0,
    0x11950, 0x11C50, 0x11D50, 0x11DA0, 0x16A60, 0x16AC0, 0x16B50, 0x1D7CE, 0x1D7D8, 0x1D7E2,
    0x1D7EC, 0x1D7F6, 0x1E140, 0x1E2F0, 0x1E950, 0x1FBF0]"

definition py_isdecimal :: "cp \<Rightarrow> bool" where
  "py_isdecimal c \<longleftrightarrow> list_ex (\<lambda>z. z \<le> c \<and> c \<le> z + 9) nd_zeros"

subsection \<open>\<open>str.strip()\<close>\<close>

definition py_lstrip :: "pystr \<Rightarrow> pystr" where
  "py_lstrip s = dropWhile py_isspace s"

definition py_rstrip :: "pystr \<Rightarrow> pystr" where
  "py_rstrip s = rev (dropWhile py_isspace (rev s))"

definition py_strip :: "pystr \<Rightarrow> pystr" where
  "py_strip s = py_rstrip (py_lstrip s)"

subsection \<open>\<open>str.lower()\<close>\<close>

text \<open>The simple lowercase mapping as range rules \<open>(lo, hi, step, delta)\<close>: a code point
  \<open>c\<close> with \<open>lo \<le> c \<le> hi\<close> and \<open>step\<close> dividing \<open>c - lo\<close> lowers to \<open>c + delta\<close>.
  U+0130 is the one code point whose lowercase form has two code points.\<close>

definition lower_rules :: "(cp \<times> cp \<times> nat \<times> int) list" where
  "lower_rules =
   [(0xC0, 0xD6, 1, 32), (0xD8, 0xDE, 1, 32), (0x100, 0x12E, 2, 1), (0x132, 0x136, 2, 1),
    (0x139, 0x147, 2, 1), (0x14A, 0x176, 2, 1), (0x178, 0x178, 1, (-121)), (0x179, 0x17D, 2, 1),
    (0x181, 0x181, 1, 210), (0x182, 0x184, 2, 1), (0x186, 0x186, 1, 206), (0x187, 0x187, 1, 1),
    (0x189, 0x18A, 1, 205), (0x18B, 0x18B, 1, 1), (0x18E, 0x18E, 1, 79), (0x18F, 0x18F, 1, 202),
    (0x190, 0x190, 1, 203), (0x191, 0x191, 1, 1), (0x193, 0x193, 1, 205), (0x194, 0x194, 1, 207),
    (0x196, 0x196, 1, 211), (0x197, 0x197, 1, 209), (0x198, 0x198, 1, 1), (0x19C, 0x19C, 1, 211),
    (0x19D, 0x19D, 1, 213), (0x19F, 0x19F, 1, 214), (0x1A0, 0x1A4, 2, 1), (0x1A6, 0x1A6, 1, 218),
    (0x1A7, 0x1A7, 1, 1), (0x1A9, 0x1A9, 1, 218), (0x1AC, 0x1AC, 1, 1), (0x1AE, 0x1AE, 1, 218),
    (0x1AF, 0x1AF, 1, 1), (0x1B1, 0x1B2, 1, 217), (0x1B3, 0x1B5, 2, 1), (0x1B7, 0x1B7, 1, 219),
    (0x1B8, 0x1B8, 1, 1), (0x1BC, 0x1BC, 1, 1), (0x1C4, 0x1C4, 1, 2), (0x1C5, 0x1C5, 1, 1),
    (0x1C7, 0x1C7, 1, 2), (0x1C8, 0x1C8, 1, 1), (0x1CA, 0x1CA, 1, 2), (0x1CB, 0x1DB, 2, 1),
    (0x1DE, 0x1EE, 2, 1), (0x1F1, 0x1F1, 1, 2), (0x1F2, 0x1F4, 2, 1), (0x1F6, 0x1F6, 1, (-97)),
    (0x1F7, 0x1F7, 1, (-56)), (0x1F8, 0x21E, 2, 1), (0x220, 0x220, 1, (-130)), (0x222, 0x232, 2, 1),
    (0x23A, 0x23A, 1, 10795), (0x23B, 0x23B, 1, 1), (0x23D, 0x23D, 1, (-163)), (0x23E, 0x23E, 1, 10792),
    (0x241, 0x241, 1, 1), (0x243, 0x243, 1, (-195)), (0x244, 0x244, 1, 69), (0x245, 0x245, 1, 71),
    (0x246, 0x24E, 2, 1), (0x370, 0x372, 2, 1), (0x376, 0x376, 1, 1), (0x37F, 0x37F, 1, 116),
    (0x386, 0x386, 1, 38), (0x388, 0x38A, 1, 37), (0x38C, 0x38C, 1, 64), (0x38E, 0x38F, 1, 63),
    (0x391, 0x3A1, 1, 32), (0x3A3, 0x3AB, 1, 32), (0x3CF, 0x3CF, 1, 8), (0x3D8, 0x3EE, 2, 1),
    (0x3F4, 0x3F4, 1, (-60)), (0x3F7, 0x3F7, 1, 1), (0x3F9, 0x3F9, 1, (-7)), (0x3FA, 0x3FA, 1, 1),
    (0x3FD, 0x3FF, 1, (-130)), (0x400, 0x40F, 1, 80), (0x410, 0x42F, 1, 32), (0x460, 0x480, 2, 1),
    (0x48A, 0x4BE, 2, 1), (0x4C0, 0x4C0, 1, 15), (0x4C1, 0x4CD, 2, 1), (0x4D0, 0x52E, 2, 1),
    (0x531, 0x556, 1, 48), (0x10A0, 0x10C5, 1, 7264), (0x10C7, 0x10C7, 1, 7264), (0x10CD, 0x10CD, 1, 7264),
    (0x13A0, 0x13EF, 1, 38864), (0x13F0, 0x13F5, 1, 8), (0x1C90, 0x1CBA, 1, (-3008)), (0x1CBD, 0x1CBF, 1, (-3008)),
    (0x1E00, 0x1E94, 2, 1), (0x1E9E, 0x1E9E, 1, (-7615)), (0x1EA0, 0x1EFE, 2, 1), (0x1F08, 0x1F0F, 1, (-8)),
    (0x1F18, 0x1F1D, 1, (-8)), (0x1F28, 0x1F2F, 1, (-8)), (0x1F38, 0x1F3F, 1, (-8)), (0x1F48, 0x1F4D, 1, (-8)),
    (0x1F59, 0x1F5F, 2, (-8)), (0x1F68, 0x1F6F, 1, (-8)), (0x1F88, 0x1F8F, 1, (-8)), (0x1F98, 0x1F9F, 1, (-8)),
    (0x1FA8, 0x1FAF, 1, (-8)), (0x1FB8, 0x1FB9, 1, (-8)), (0x1FBA, 0x1FBB, 1, (-74)), (0x1FBC, 0x1FBC, 1, (-9)),
    (0x1FC8, 0x1FCB, 1, (-86)), (0x1FCC, 0x1FCC, 1, (-9)), (0x1FD8, 0x1FD9, 1, (-8)), (0x1FDA, 0x1FDB, 1, (-100)),
    (0x1FE8, 0x1FE9, 1, (-8)), (0x1FEA, 0x1FEB, 1, (-112)), (0x1FEC, 0x1FEC, 1, (-7)), (0x1FF8, 0x1FF9, 1, (-128)),
    (0x1FFA, 0x1FFB, 1, (-126)), (0x1FFC, 0x1FFC, 1, (-9)), (0x2126, 0x2126, 1, (-7517)), (0x212A, 0x212A, 1, (-8383)),
    (0x212B, 0x212B, 1, (-8262)), (0x2132, 0x2132, 1, 28), (0x2160, 0x216F, 1, 16), (0x2183, 0x2183, 1, 1),
    (0x24B6, 0x24CF, 1, 26), (0x2C00, 0x2C2F, 1, 48), (0x2C60, 0x2C60, 1, 1), (0x2C62, 0x2C62, 1, (-10743)),
    (0x2C63, 0x2C63, 1, (-3814)), (0x2C64, 0x2C64, 1, (-10727)), (0x2C67, 0x2C6B, 2, 1), (0x2C6D, 0x2C6D, 1, (-10780)),
    (0x2C6E, 0x2C6E, 1, (-10749)), (0x2C6F, 0x2C6F, 1, (-10783)), (0x2C70, 0x2C70, 1, (-10782)), (0x2C72, 0x2C72, 1, 1),
    (0x2C75, 0x2C75, 1, 1), (0x2C7E, 0x2C7F, 1, (-10815)), (0x2C80, 0x2CE2, 2, 1), (0x2CEB, 0x2CED, 2, 1),
    (0x2CF2, 0x2CF2, 1, 1), (0xA640, 0xA66C, 2, 1), (0xA680, 0xA69A, 2, 1), (0xA722, 0xA72E, 2, 1),
    (0xA732, 0xA76E, 2, 1), (0xA779, 0xA77B, 2, 1), (0xA77D, 0xA77D, 1, (-35332)), (0xA77E, 0xA786, 2, 1),
    (0xA78B, 0xA78B, 1, 1), (0xA78D, 0xA78D, 1, (-42280)), (0xA790, 0xA792, 2, 1), (0xA796, 0xA7A8, 2, 1),
    (0xA7AA, 0xA7AA, 1, (-42308)), (0xA7AB, 0xA7AB, 1, (-42319)), (0xA7AC, 0xA7AC, 1, (-42315)), (0xA7AD, 0xA7AD, 1, (-42305)),
    (0xA7AE, 0xA7AE, 1, (-42308)), (0xA7B0, 0xA7B0, 1, (-42258)), (0xA7B1, 0xA7B1, 1, (-42282)), (0xA7B2, 0xA7B2, 1, (-42261)),
    (0xA7B3, 0xA7B3, 1, 928), (0xA7B4, 0xA7C2, 2, 1), (0xA7C4, 0xA7C4, 1, (-48)), (0xA7C5, 0xA7C5, 1, (-42307)),
    (0xA7C6, 0xA7C6, 1, (-35384)), (0xA7C7, 0xA7C9, 2, 1), (0xA7D0, 0xA7D0, 1, 1), (0xA7D6, 0xA7D8, 2, 1),
    (0xA7F5, 0xA7F5, 1, 1), (0xFF21, 0xFF3A, 1, 32), (0x10400, 0x10427, 1, 40), (0x104B0, 0x104D3, 1, 40),
    (0x10570, 0x1057A, 1, 39), (0x1057C, 0x1058A, 1, 39), (0x1058C, 0x10592, 1, 39), (0x10594, 0x10595, 1, 39),
    (0x10C80, 0x10CB2, 1, 64), (0x118A0, 0x118BF, 1, 32), (0x16E40, 0x16E5F, 1, 32), (0x1E900, 0x1E921, 1, 34)]"

fun lower_lookup :: "(cp \<times> cp \<times> nat \<times> int) list \<Rightarrow> cp \<Rightarrow> cp" where
  "lower_lookup [] c = c"
| "lower_lookup ((lo, hi, st, d) # rs) c =
     (if lo \<le> c \<and> c \<le> hi \<and> (c - lo) mod st = 0 then nat (int c + d) else lower_lookup rs c)"

definition py_lower_cp :: "cp \<Rightarrow> pystr" where
  "py_lower_cp c =
     (if c < 0x80 then [if 0x41 \<le> c \<and> c \<le> 0x5A then c + 0x20 else c]
      else if c = 0x130 then [0x69, 0x307]
      else [lower_lookup lower_rules c])"

definition py_lower :: "pystr \<Rightarrow> pystr" where
  "py_lower s = concat (map py_lower_cp s)"

subsection \<open>\<open>needle in haystack\<close>\<close>

fun py_contains :: "pystr \<Rightarrow> pystr \<Rightarrow> bool" where
  "py_contains n [] \<longleftrightarrow> n = []"
| "py_contains n (c # h) \<longleftrightarrow> take (length n) (c # h) = n \<or> py_contains n h"

subsection \<open>\<open>str.replace(old, new)\<close>\<close>

text \<open>All non-overlapping occurrences, scanned left to right in one pass; an empty
  \<open>old\<close> inserts \<open>new\<close> before every code point and at the end.\<close>

fun replace_scan :: "pystr \<Rightarrow> pystr \<Rightarrow> pystr \<Rightarrow> pystr" where
  "replace_scan old new [] = []"
| "replace_scan old new (c # s) =
     (if old \<noteq> [] \<and> take (length old) (c # s) = old
      then new @ replace_scan old new (drop (length old) (c # s))
      else c # replace_scan old new s)"

definition py_replace :: "pystr \<Rightarrow> pystr \<Rightarrow> pystr \<Rightarrow> pystr" where
  "py_replace s old new =
     (if old = [] then new @ concat (map (\<lambda>c. c # new) s) else replace_scan old new s)"

subsection \<open>\<open>str.ljust(width)\<close>\<close>

definition py_ljust :: "pystr \<Rightarrow> nat \<Rightarrow> pystr" where
  "py_ljust s w = s @ replicate (w - length s) SPACE"

declare ascii_def [pystr_defs] py_isspace_def [pystr_defs] py_isdecimal_def [pystr_defs]
  nd_zeros_def [pystr_defs] py_lstrip_def [pystr_defs] py_rstrip_def [pystr_defs]
  py_strip_def [pystr_defs] py_lower_def [pystr_defs] py_lower_cp_def [pystr_defs]
  py_replace_def [pystr_defs] py_ljust_def [pystr_defs]

subsection \<open>Lemmas\<close>

lemma py_lstrip_split: "s = takeWhile py_isspace s @ py_lstrip s"
  by (simp add: py_lstrip_def)

lemma py_rstrip_split: "s = py_rstrip s @ rev (takeWhile py_isspace (rev s))"
proof -
  have "rev (rev s) = rev (takeWhile py_isspace (rev s) @ dropWhile py_isspace (rev s))"
    by simp
  then show ?thesis
    unfolding py_rstrip_def rev_append rev_rev_ident .
qed

lemma py_strip_Nil_iff: "py_strip s = [] \<longleftrightarrow> list_all py_isspace s"
proof
  assume "py_strip s = []"
  then have "list_all py_isspace (py_lstrip s)"
    by (simp add: py_strip_def py_rstrip_def dropWhile_eq_Nil_conv list_all_iff)
  then have "py_lstrip s = []"
  proof (rule contrapos_pp)
    assume ne: "py_lstrip s \<noteq> []"
    then have "\<not> py_isspace (hd (py_lstrip s))"
      using hd_dropWhile[of py_isspace s] unfolding py_lstrip_def by blast
    with ne show "\<not> list_all py_isspace (py_lstrip s)"
      by (cases "py_lstrip s") simp_all
  qed
  then show "list_all py_isspace s"
    by (simp add: py_lstrip_def dropWhile_eq_Nil_conv list_all_iff)
qed (simp add: py_strip_def py_rstrip_def py_lstrip_def)

lemma py_strip_hd: "py_strip s \<noteq> [] \<Longrightarrow> \<not> py_isspace (hd (py_strip s))"
proof -
  assume ne: "py_strip s \<noteq> []"
  have "py_lstrip s = py_strip s @ rev (takeWhile py_isspace (rev (py_lstrip s)))"
    unfolding py_strip_def by (rule py_rstrip_split)
  with ne have "hd (py_lstrip s) = hd (py_strip s)" and "py_lstrip s \<noteq> []"
    by (metis hd_append2, metis append_is_Nil_conv)
  then show ?thesis
    using hd_dropWhile[of py_isspace s] by (simp add: py_lstrip_def)
qed

lemma py_strip_last: "py_strip s \<noteq> [] \<Longrightarrow> \<not> py_isspace (last (py_strip s))"
proof -
  assume "py_strip s \<noteq> []"
  then have "dropWhile py_isspace (rev (py_lstrip s)) \<noteq> []"
    by (simp add: py_strip_def py_rstrip_def)
  then show ?thesis
    by (simp add: py_strip_def py_rstrip_def last_rev hd_dropWhile)
qed

lemma py_strip_eq:
  assumes "list_all py_isspace w1" and "list_all py_isspace w2"
    and "t \<noteq> []" and "\<not> py_isspace (hd t)" and "\<not> py_isspace (last t)"
  shows "py_strip (w1 @ t @ w2) = t"
proof -
  obtain u x where t: "t = u @ [x]"
    using assms(3) by (metis rev_exhaust)
  have "py_lstrip (w1 @ t @ w2) = t @ w2"
    using assms(1,3,4) by (cases t) (simp_all add: py_lstrip_def)
  moreover have "\<not> py_isspace x"
    using assms(5) t by simp
  ultimately show ?thesis
    using assms(2) t by (simp add: py_strip_def py_rstrip_def)
qed

lemma py_strip_id:
  "s \<noteq> [] \<Longrightarrow> \<not> py_isspace (hd s) \<Longrightarrow> \<not> py_isspace (last s) \<Longrightarrow> py_strip s = s"
  using py_strip_eq[of "[]" "[]" s] by simp

lemma py_strip_idem [simp]: "py_strip (py_strip s) = py_strip s"
proof (cases "py_strip s = []")
  case True
  have "py_strip [] = []" by (simp add: py_strip_def py_rstrip_def py_lstrip_def)
  with True show ?thesis by simp
next
  case False
  then show ?thesis by (simp add: py_strip_id py_strip_hd py_strip_last)
qed

lemma py_strip_decomp:
  "\<exists>w1 w2. s = w1 @ py_strip s @ w2 \<and> list_all py_isspace w1 \<and> list_all py_isspace w2"
proof (intro exI conjI)
  let ?l = "py_lstrip s"
  have "s = takeWhile py_isspace s @ ?l" by (rule py_lstrip_split)
  moreover have "?l = py_strip s @ rev (takeWhile py_isspace (rev ?l))"
    unfolding py_strip_def by (rule py_rstrip_split)
  ultimately show "s = takeWhile py_isspace s @ py_strip s @ rev (takeWhile py_isspace (rev ?l))"
    by metis
  show "list_all py_isspace (takeWhile py_isspace s)"
    by (simp add: list_all_iff) (meson set_takeWhileD)
  show "list_all py_isspace (rev (takeWhile py_isspace (rev ?l)))"
    by (simp add: list_all_iff) (meson set_takeWhileD)
qed

lemma py_strip_append_space:
  "list_all py_isspace w \<Longrightarrow> py_strip (s @ w) = py_strip s"
proof (cases "py_strip s = []")
  case True
  moreover assume "list_all py_isspace w"
  ultimately have "py_strip (s @ w) = []" by (simp add: py_strip_Nil_iff)
  with True show ?thesis by simp
next
  case False
  assume w: "list_all py_isspace w"
  obtain w1 w2 where s: "s = w1 @ py_strip s @ w2"
    and "list_all py_isspace w1" "list_all py_isspace w2"
    using py_strip_decomp by blast
  with w False have "py_strip (w1 @ py_strip s @ (w2 @ w)) = py_strip s"
    by (intro py_strip_eq) (simp_all add: py_strip_hd py_strip_last)
  then show ?thesis using s by (metis append.assoc)
qed

lemma py_strip_space_append:
  "list_all py_isspace w \<Longrightarrow> py_strip (w @ s) = py_strip s"
  by (simp add: py_strip_def py_lstrip_def)

lemma py_strip_set: "set (py_strip s) \<subseteq> set s"
  using py_strip_decomp[of s] by (metis Un_iff set_append subsetI)

lemma py_contains_iff: "py_contains n h \<longleftrightarrow> sublist n h"
  by (induction n h rule: py_contains.induct)
     (auto simp: sublist_Cons_right prefix_iff_take)

lemma replace_scan_no_occurrence:
  "\<not> sublist old s \<Longrightarrow> replace_scan old new s = s"
proof (induction old new s rule: replace_scan.induct)
  case (2 old new c s)
  from "2.prems" have "\<not> prefix old (c # s)" and ns: "\<not> sublist old s"
    by (simp_all add: sublist_Cons_right)
  then have nc: "\<not> (old \<noteq> [] \<and> take (length old) (c # s) = old)"
    by (simp add: prefix_iff_take)
  then have "replace_scan old new (c # s) = c # replace_scan old new s"
    by (simp only: replace_scan.simps(2) if_False)
  with "2.IH"(2)[OF nc ns] show ?case by simp
qed simp

lemma py_replace_no_occurrence:
  "old \<noteq> [] \<Longrightarrow> \<not> sublist old s \<Longrightarrow> py_replace s old new = s"
  by (simp add: py_replace_def replace_scan_no_occurrence)

lemma py_replace_prefix:
  "old \<noteq> [] \<Longrightarrow> py_replace (old @ s) old new = new @ py_replace s old new"
  by (cases old) (simp_all add: py_replace_def)

lemma set_replace_scan: "set (replace_scan old new s) \<subseteq> set new \<union> set s"
proof (induction old new s rule: replace_scan.induct)
  case (2 old new c s)
  have "set (drop (length old) (c # s)) \<subseteq> set (c # s)" by (rule set_drop_subset)
  with 2 show ?case by auto
qed simp

lemma set_py_replace: "set (py_replace s old new) \<subseteq> set new \<union> set s"
  using set_replace_scan[of old new s] by (auto simp: py_replace_def)

lemma replace_scan_skip:
  "old \<noteq> [] \<Longrightarrow> hd old \<notin> set a \<Longrightarrow> replace_scan old new (a @ s) = a @ replace_scan old new s"
proof (induction a)
  case (Cons c a)
  have "take (length old) (c # a @ s) \<noteq> old"
    using Cons.prems by (cases old) auto
  with Cons show ?case by simp
qed simp

lemma length_py_ljust [simp]: "length (py_ljust s w) = max w (length s)"
  by (simp add: py_ljust_def)

lemma py_lower_append [simp]: "py_lower (a @ b) = py_lower a @ py_lower b"
  by (simp add: py_lower_def)

lemma py_lower_Nil [simp]: "py_lower [] = []"
  by (simp add: py_lower_def)

end
