(* ===== verification/Regex.thy ===== *)
theory Regex
  imports PyStr
begin

text \<open>
  The regular expressions of \<open>src/bot.py\<close> as Python's \<open>re\<close> engine (sre) runs them on a
  \<open>str\<close>. Each pattern used is a sequence of single-class repeats \<open>X+\<close>; sre matches such a
  repeat greedily (the longest run of \<open>X\<close>) and, when the rest of the pattern fails, gives
  back one code point at a time down to one occurrence. \<open>try_splits\<close> is that backtracking
  loop and \<open>re_plus\<close> the repeat: a continuation receives the matched run and the rest of
  the subject and may fail (\<open>None\<close>). The anchor \<open>$\<close> (no MULTILINE) matches at the end
  of the subject or before a final newline (\<open>re_end\<close>); \<open>.\<close> (no DOTALL) is any code
  point but the newline.
  \<^item> \<open>record_re\<close>: \<open>re.match(r'^([+\d\s-]+)\t+(.+)$', s)\<close> of \<open>load_data\<close>, with its
    two groups; \<open>sep_name_re\<close> is the suffix \<open>\t+(.+)$\<close> and \<open>name_re\<close> the suffix
    \<open>(.+)$\<close>;
  \<^item> \<open>marker_re\<close>: \<open>re.match(r'^[=\<dots>]', s)\<close> of \<open>load_data\<close>, the class of
    \<open>=\<close>, U+1F4F1 (mobile phone) and U+1F9D1 (person).
\<close>

fun try_splits :: "(pystr \<Rightarrow> pystr \<Rightarrow> 'a option) \<Rightarrow> pystr \<Rightarrow> nat \<Rightarrow> 'a option" where
  "try_splits k s 0 = None"
| "try_splits k s (Suc i) =
     (case k (take (Suc i) s) (drop (Suc i) s) of
        Some r \<Rightarrow> Some r
      | None \<Rightarrow> try_splits k s i)"

definition re_plus :: "(cp \<Rightarrow> bool) \<Rightarrow> (pystr \<Rightarrow> pystr \<Rightarrow> 'a option) \<Rightarrow> pystr \<Rightarrow> 'a option" where
  "re_plus P k s = try_splits k s (length (takeWhile P s))"

definition re_end :: "pystr \<Rightarrow> bool" where
  "re_end r \<longleftrightarrow> r = [] \<or> r = [NL]"

text \<open>The class \<open>[+\d\s-]\<close>.\<close>

definition phone_class :: "cp \<Rightarrow> bool" where
  "phone_class c \<longleftrightarrow> c = 0x2B \<or> py_isdecimal c \<or> py_isspace c \<or> c = 0x2D"

definition name_re :: "pystr \<Rightarrow> pystr option" where
  "name_re u = re_plus (\<lambda>c. c \<noteq> NL) (\<lambda>g r. if re_end r then Some g else None) u"

definition sep_name_re :: "pystr \<Rightarrow> pystr option" where
  "sep_name_re r = re_plus (\<lambda>c. c = TAB) (\<lambda>_ u. name_re u) r"

definition record_re :: "pystr \<Rightarrow> (pystr \<times> pystr) option" where
  "record_re s = re_plus phone_class (\<lambda>g1 r. map_option (\<lambda>g2. (g1, g2)) (sep_name_re r)) s"

definition marker_re :: "pystr \<Rightarrow> bool" where
  "marker_re s \<longleftrightarrow> (case s of [] \<Rightarrow> False | c # _ \<Rightarrow> c = 0x3D \<or> c = 0x1F4F1 \<or> c = 0x1F9D1)"

declare re_plus_def [regex_defs] re_end_def [regex_defs] phone_class_def [regex_defs]
  name_re_def [regex_defs] sep_name_re_def [regex_defs] record_re_def [regex_defs]
  marker_re_def [regex_defs]

subsection \<open>The backtracking engine and the three patterns\<close>

lemma try_splits_SomeE:
  "try_splits k s n = Some r \<Longrightarrow>
   \<exists>i. 0 < i \<and> i \<le> n \<and> k (take i s) (drop i s) = Some r \<and>
       (\<forall>j. i < j \<and> j \<le> n \<longrightarrow> k (take j s) (drop j s) = None)"
proof (induction n)
  case 0
  then show ?case by simp
next
  case (Suc n)
  show ?case
  proof (cases "k (take (Suc n) s) (drop (Suc n) s)")
    case None
    with Suc.prems have "try_splits k s n = Some r" by simp
    then obtain i where "0 < i" "i \<le> n" "k (take i s) (drop i s) = Some r"
      and "\<forall>j. i < j \<and> j \<le> n \<longrightarrow> k (take j s) (drop j s) = None"
      using Suc.IH by blast
    with None show ?thesis
      by (intro exI[of _ i]) (auto simp: le_Suc_eq)
  next
    case (Some r')
    with Suc.prems show ?thesis
      by (intro exI[of _ "Suc n"]) auto
  qed
qed

lemma try_splits_eqI:
  "0 < i \<Longrightarrow> i \<le> n \<Longrightarrow> k (take i s) (drop i s) = Some r \<Longrightarrow>
   (\<forall>j. i < j \<and> j \<le> n \<longrightarrow> k (take j s) (drop j s) = None) \<Longrightarrow>
   try_splits k s n = Some r"
proof (induction n)
  case 0
  then show ?case by simp
next
  case (Suc n)
  show ?case
  proof (cases "i = Suc n")
    case True
    with Suc.prems(3) show ?thesis by simp
  next
    case False
    with Suc.prems(2) have le: "i \<le> n" by simp
    have "k (take (Suc n) s) (drop (Suc n) s) = None"
      using Suc.prems(4) le by simp
    moreover have "try_splits k s n = Some r"
      using Suc.IH Suc.prems(1,3,4) le by simp
    ultimately show ?thesis by simp
  qed
qed

lemma try_splits_None:
  "(\<forall>j. 0 < j \<and> j \<le> n \<longrightarrow> k (take j s) (drop j s) = None) \<Longrightarrow> try_splits k s n = None"
  by (induction n) auto

lemma drop_inside_takeWhile:
  "j < length (takeWhile P u) \<Longrightarrow> drop j u \<noteq> [] \<and> P (hd (drop j u))"
  by (metis hd_drop_conv_nth drop_eq_Nil length_takeWhile_le not_le order.strict_trans2
      take_Suc_length_takeWhile)

lemma re_end_hd: "re_end r \<Longrightarrow> r \<noteq> [] \<Longrightarrow> hd r = NL"
  by (auto simp: re_end_def)

lemma name_re_eq:
  "name_re u =
     (if takeWhile (\<lambda>c. c \<noteq> NL) u \<noteq> [] \<and> re_end (dropWhile (\<lambda>c. c \<noteq> NL) u)
      then Some (takeWhile (\<lambda>c. c \<noteq> NL) u) else None)"
proof -
  let ?P = "\<lambda>c. c \<noteq> NL"
  let ?k = "\<lambda>g r. if re_end r then Some g else None"
  let ?L = "length (takeWhile ?P u)"
  have below: "?k (take j u) (drop j u) = None" if "0 < j" "j < ?L" for j
    using drop_inside_takeWhile[OF that(2)] re_end_hd by fastforce
  have at: "take ?L u = takeWhile ?P u" "drop ?L u = dropWhile ?P u"
    by (metis append_eq_conv_conj takeWhile_dropWhile_id)+
  show ?thesis
  proof (cases "takeWhile ?P u \<noteq> [] \<and> re_end (dropWhile ?P u)")
    case True
    then have "try_splits ?k u ?L = Some (takeWhile ?P u)"
      by (intro try_splits_eqI[where i = ?L]) (simp_all add: at)
    with True show ?thesis by (simp add: name_re_def re_plus_def)
  next
    case False
    have "try_splits ?k u ?L = None"
    proof (rule try_splits_None, intro allI impI)
      fix j assume j: "0 < j \<and> j \<le> ?L"
      show "?k (take j u) (drop j u) = None"
      proof (cases "j = ?L")
        case True
        with j False show ?thesis by (auto simp: at)
      next
        case False
        with j below show ?thesis by simp
      qed
    qed
    with False show ?thesis by (simp add: name_re_def re_plus_def)
  qed
qed

lemma name_re_Some_iff:
  "name_re u = Some g \<longleftrightarrow> g \<noteq> [] \<and> NL \<notin> set g \<and> (u = g \<or> u = g @ [NL])"
proof
  assume "name_re u = Some g"
  then have g: "g = takeWhile (\<lambda>c. c \<noteq> NL) u" "g \<noteq> []"
    and e: "re_end (dropWhile (\<lambda>c. c \<noteq> NL) u)"
    by (simp_all add: name_re_eq split: if_splits)
  define d where "d = dropWhile (\<lambda>c. c \<noteq> NL) u"
  have u: "u = g @ d" using g by (simp add: d_def)
  moreover have "NL \<notin> set g" using g by (metis (mono_tags) set_takeWhileD)
  moreover have "d = [] \<or> d = [NL]" using e by (simp add: d_def re_end_def)
  ultimately show "g \<noteq> [] \<and> NL \<notin> set g \<and> (u = g \<or> u = g @ [NL])"
    using g(2) by auto
next
  assume a: "g \<noteq> [] \<and> NL \<notin> set g \<and> (u = g \<or> u = g @ [NL])"
  then have all: "list_all (\<lambda>c. c \<noteq> NL) g" by (auto simp: list_all_iff)
  from a show "name_re u = Some g"
  proof (elim conjE disjE)
    assume "u = g"
    with a all show ?thesis by (simp add: name_re_eq re_end_def)
  next
    assume "u = g @ [NL]"
    with a all show ?thesis by (simp add: name_re_eq re_end_def)
  qed
qed

lemma sep_name_re_tabs:
  assumes "0 < m" and "v \<noteq> []" and "hd v \<noteq> TAB" and "NL \<notin> set v"
  shows "sep_name_re (replicate m TAB @ v) = Some v"
proof -
  let ?r = "replicate m TAB @ v"
  have tw: "takeWhile (\<lambda>c. c = TAB) v = []"
    using assms(2,3) by (cases v) simp_all
  have L: "length (takeWhile (\<lambda>c. c = TAB) ?r) = m"
    by (simp add: list_all_iff tw)
  have "name_re v = Some v"
    using assms(2,4) by (simp add: name_re_Some_iff)
  then have "try_splits (\<lambda>_ u. name_re u) ?r m = Some v"
    using assms(1) by (intro try_splits_eqI[where i = m]) simp_all
  then show ?thesis by (simp add: sep_name_re_def re_plus_def L)
qed

lemma sep_name_re_SomeE:
  assumes "sep_name_re r = Some g"
  shows "\<exists>m e. 0 < m \<and> r = replicate m TAB @ g @ e \<and> re_end e \<and> g \<noteq> [] \<and> NL \<notin> set g"
proof -
  have "try_splits (\<lambda>_ u. name_re u) r (length (takeWhile (\<lambda>c. c = TAB) r)) = Some g"
    using assms by (simp add: sep_name_re_def re_plus_def)
  then have "\<exists>i. 0 < i \<and> i \<le> length (takeWhile (\<lambda>c. c = TAB) r) \<and>
      name_re (drop i r) = Some g \<and>
      (\<forall>j. i < j \<and> j \<le> length (takeWhile (\<lambda>c. c = TAB) r) \<longrightarrow> name_re (drop j r) = None)"
    by (rule try_splits_SomeE)
  then obtain i where i: "0 < i" "i \<le> length (takeWhile (\<lambda>c. c = TAB) r)"
    and n: "name_re (drop i r) = Some g"
    by blast
  have "list_all (\<lambda>c. c = TAB) (take i r)"
    using i(2) by (rule list_all_take_takeWhile)
  moreover have "length (take i r) = i"
    using i(2) length_takeWhile_le[of "\<lambda>c. c = TAB" r] by simp
  ultimately have "take i r = replicate i TAB"
    by (metis list_all_eq_replicate)
  moreover define d where "d = drop i r"
  ultimately have r: "r = replicate i TAB @ d"
    by (metis append_take_drop_id d_def)
  from n have "g \<noteq> [] \<and> NL \<notin> set g \<and> (d = g \<or> d = g @ [NL])"
    by (simp add: d_def name_re_Some_iff)
  then show ?thesis
  proof (elim conjE disjE)
    assume "g \<noteq> []" "NL \<notin> set g" "d = g"
    with r i(1) show ?thesis by (intro exI[of _ i] exI[of _ "[]"]) (simp add: re_end_def)
  next
    assume "g \<noteq> []" "NL \<notin> set g" "d = g @ [NL]"
    with r i(1) show ?thesis by (intro exI[of _ i] exI[of _ "[NL]"]) (simp add: re_end_def)
  qed
qed

lemma sep_name_re_not_tab:
  "r = [] \<or> hd r \<noteq> TAB \<Longrightarrow> sep_name_re r = None"
  by (cases r) (auto simp: sep_name_re_def re_plus_def)

lemma record_re_SomeE:
  assumes "record_re s = Some (g1, g2)"
  shows "\<exists>i. 0 < i \<and> i \<le> length (takeWhile phone_class s) \<and> g1 = take i s \<and>
           sep_name_re (drop i s) = Some g2 \<and>
           (\<forall>j. i < j \<and> j \<le> length (takeWhile phone_class s) \<longrightarrow> sep_name_re (drop j s) = None)"
proof -
  let ?k = "\<lambda>g1 r. map_option (\<lambda>g2. (g1, g2)) (sep_name_re r)"
  let ?L = "length (takeWhile phone_class s)"
  have "try_splits ?k s ?L = Some (g1, g2)"
    using assms by (simp add: record_re_def re_plus_def)
  then have "\<exists>i. 0 < i \<and> i \<le> ?L \<and> ?k (take i s) (drop i s) = Some (g1, g2) \<and>
               (\<forall>j. i < j \<and> j \<le> ?L \<longrightarrow> ?k (take j s) (drop j s) = None)"
    by (rule try_splits_SomeE)
  then show ?thesis by (simp split: option.splits) (metis option.map_disc_iff)
qed

lemma record_re_eqI:
  "0 < i \<Longrightarrow> i \<le> length (takeWhile phone_class s) \<Longrightarrow> sep_name_re (drop i s) = Some g2 \<Longrightarrow>
   (\<forall>j. i < j \<and> j \<le> length (takeWhile phone_class s) \<longrightarrow> sep_name_re (drop j s) = None) \<Longrightarrow>
   record_re s = Some (take i s, g2)"
  unfolding record_re_def re_plus_def by (rule try_splits_eqI) auto

lemma record_re_not_class:
  "s = [] \<or> \<not> phone_class (hd s) \<Longrightarrow> record_re s = None"
  by (cases s) (auto simp: record_re_def re_plus_def)

lemma marker_not_phone_class:
  "marker_re s \<Longrightarrow> \<not> phone_class (hd s)"
  by (cases s) (auto simp: marker_re_def phone_class_def pystr_defs)

end
