(* ===== verification/Loader.thy ===== *)
theory Loader
  imports Regex
begin

text \<open>
  The parsing half of \<open>PhoneBookBot.load_data\<close> (\<open>src/bot.py\<close>, lines 18--43): the file
  opened in text mode with \<open>encoding='utf-8'\<close> and the default \<open>newline=None\<close>, read with
  \<open>readlines()\<close>, and the loop that keeps the lines matching the record pattern.
  \<^item> \<open>translate_newlines\<close>, \<open>split_lines\<close> and \<open>py_readlines\<close>: universal-newline
    decoding (\<open>\r\n\<close> and a lone \<open>\r\<close> become \<open>\n\<close>) and the split after each
    \<open>\n\<close> that \<open>readlines()\<close> performs on the decoded text;
  \<^item> \<open>parse_line\<close>: one iteration of the loop body (lines 27--35): skip a blank line or a
    line starting with a marker, otherwise match the record pattern on the stripped line and
    keep the stripped groups;
  \<^item> \<open>load_loop\<close>: the loop itself with its accumulator \<open>processed_data\<close>.
  The well-formedness predicates \<open>wf_phone\<close>, \<open>wf_name\<close> and \<open>wf_contact\<close> say what
  every loaded record satisfies; the lemmas below show that \<open>parse_line\<close> produces exactly
  the records of well-formed lines and only well-formed records.
\<close>

fun translate_newlines :: "pystr \<Rightarrow> pystr" where
  "translate_newlines [] = []"
| "translate_newlines [c] = [if c = CR then NL else c]"
| "translate_newlines (c # d # s) =
     (if c = CR \<and> d = NL then NL # translate_newlines s
      else (if c = CR then NL else c) # translate_newlines (d # s))"

fun split_lines :: "pystr \<Rightarrow> pystr \<Rightarrow> pystr list" where
  "split_lines cur [] = (if cur = [] then [] else [cur])"
| "split_lines cur (c # s) =
     (if c = NL then (cur @ [NL]) # split_lines [] s else split_lines (cur @ [c]) s)"

definition py_readlines :: "pystr \<Rightarrow> pystr list" where
  "py_readlines text = split_lines [] (translate_newlines text)"

definition parse_line :: "pystr \<Rightarrow> contact option" where
  "parse_line line =
     (let s = py_strip line in
      if s = [] \<or> marker_re s then None
      else (case record_re s of
              Some (g1, g2) \<Rightarrow> Some (py_strip g1, py_strip g2)
            | None \<Rightarrow> None))"

fun load_loop :: "contact list \<Rightarrow> pystr list \<Rightarrow> contact list" where
  "load_loop acc [] = acc"
| "load_loop acc (line # rest) =
     load_loop (case parse_line line of None \<Rightarrow> acc | Some r \<Rightarrow> acc @ [r]) rest"

text \<open>What a loaded record satisfies.\<close>

definition wf_phone :: "pystr \<Rightarrow> bool" where
  "wf_phone p \<longleftrightarrow> p \<noteq> [] \<and> list_all phone_class p \<and> py_strip p = p"

definition wf_name :: "pystr \<Rightarrow> bool" where
  "wf_name n \<longleftrightarrow> n \<noteq> [] \<and> py_strip n = n \<and> NL \<notin> set n \<and> TAB \<notin> set (takeWhile phone_class n)"

definition wf_contact :: "contact \<Rightarrow> bool" where
  "wf_contact r \<longleftrightarrow>
     (case r of (p, n) \<Rightarrow> wf_phone p \<and> wf_name n \<and> NL \<notin> set p \<and> CR \<notin> set p \<and> CR \<notin> set n)"

text \<open>The loop body without the marker test, for the equivalence lemma below.\<close>

definition parse_line_nomarker :: "pystr \<Rightarrow> contact option" where
  "parse_line_nomarker line =
     (let s = py_strip line in
      if s = [] then None
      else map_option (\<lambda>(g1, g2). (py_strip g1, py_strip g2)) (record_re s))"

declare wf_phone_def [wf_simps] wf_name_def [wf_simps] wf_contact_def [wf_simps]

subsection \<open>Lemmas\<close>

lemma phone_class_TAB [simp]: "phone_class TAB"
  by (simp add: phone_class_def py_isspace_def)

lemma phone_class_space: "py_isspace c \<Longrightarrow> phone_class c"
  by (simp add: phone_class_def)

lemma wf_phone_hd: "wf_phone p \<Longrightarrow> \<not> py_isspace (hd p) \<and> phone_class (hd p)"
proof -
  assume "wf_phone p"
  then have "p \<noteq> []" "list_all phone_class p" "py_strip p = p"
    by (simp_all add: wf_phone_def)
  then show ?thesis using py_strip_hd[of p] by (cases p) auto
qed

lemma wf_name_hd_last: "wf_name n \<Longrightarrow> \<not> py_isspace (hd n) \<and> \<not> py_isspace (last n)"
  unfolding wf_name_def by (metis py_strip_hd py_strip_last)

lemma drop_tw_not_tab:
  assumes "t \<le> length (takeWhile phone_class n)" and "TAB \<notin> set (takeWhile phone_class n)"
  shows "drop t n = [] \<or> hd (drop t n) \<noteq> TAB"
proof (cases "t < length n")
  case True
  then have h: "hd (drop t n) = n ! t" by (simp add: hd_drop_conv_nth)
  show ?thesis
  proof (cases "t < length (takeWhile phone_class n)")
    case True
    then have "n ! t \<in> set (takeWhile phone_class n)"
      by (metis nth_mem takeWhile_nth)
    with assms(2) h show ?thesis by auto
  next
    case False
    with assms(1) have "t = length (takeWhile phone_class n)" by simp
    with \<open>t < length n\<close> have "\<not> phone_class (n ! t)"
      using nth_length_takeWhile by blast
    with h show ?thesis by auto
  qed
qed simp

lemma parse_line_padded:
  assumes "wf_phone p" and "list_all py_isspace w" and "wf_name n" and "0 < k"
  shows "parse_line (p @ w @ replicate k TAB @ n) = Some (p, n)"
proof -
  let ?q = "p @ w"
  let ?s = "?q @ replicate k TAB @ n"
  let ?i = "length ?q + (k - 1)"
  have p: "p \<noteq> []" "list_all phone_class p" "py_strip p = p"
    using assms(1) by (simp_all add: wf_phone_def)
  have n: "n \<noteq> []" "py_strip n = n" "NL \<notin> set n" "TAB \<notin> set (takeWhile phone_class n)"
    using assms(3) by (simp_all add: wf_name_def)
  have hp: "\<not> py_isspace (hd p)" "phone_class (hd p)" using wf_phone_hd[OF assms(1)] by simp_all
  have hn: "\<not> py_isspace (hd n)" "\<not> py_isspace (last n)" using wf_name_hd_last[OF assms(3)] by simp_all
  have strip: "py_strip ?s = ?s"
    using p(1) n(1) hp hn by (intro py_strip_id) simp_all
  have nomark: "\<not> marker_re ?s"
    using marker_not_phone_class[of ?s] p(1) hp by auto
  have cls: "list_all phone_class ?q" "list_all phone_class (replicate k TAB)"
    using p(2) assms(2) by (auto simp: list_all_iff phone_class_space)
  have L: "length (takeWhile phone_class ?s) = length ?q + k + length (takeWhile phone_class n)"
    using cls by simp
  have split: "?s = (?q @ replicate (k - 1) TAB) @ replicate 1 TAB @ n"
    using assms(4) by (cases k) (simp_all add: replicate_append_same)
  have take_i: "take ?i ?s = ?q @ replicate (k - 1) TAB"
    using split by (metis append_eq_conv_conj length_append length_replicate)
  have drop_i: "drop ?i ?s = replicate 1 TAB @ n"
    using split by (metis append_eq_conv_conj length_append length_replicate)
  have sep: "sep_name_re (drop ?i ?s) = Some n"
    unfolding drop_i using n(1,3) hn(1) by (intro sep_name_re_tabs) (auto simp: py_isspace_def)
  have later: "sep_name_re (drop j ?s) = None"
    if "?i < j" "j \<le> length (takeWhile phone_class ?s)" for j
  proof -
    have "drop j ?s = drop (j - length ?q - k) n"
      using that(1) assms(4) by simp
    moreover have "j - length ?q - k \<le> length (takeWhile phone_class n)"
      using that(2) L by simp
    ultimately show ?thesis
      using drop_tw_not_tab n(4) by (metis sep_name_re_not_tab)
  qed
  have "record_re ?s = Some (take ?i ?s, n)"
  proof (rule record_re_eqI)
    show "0 < ?i" using p(1) by simp
    show "?i \<le> length (takeWhile phone_class ?s)" unfolding L by simp
    show "sep_name_re (drop ?i ?s) = Some n" by (rule sep)
    show "\<forall>j. ?i < j \<and> j \<le> length (takeWhile phone_class ?s) \<longrightarrow> sep_name_re (drop j ?s) = None"
      using later by blast
  qed
  then have "record_re ?s = Some (?q @ replicate (k - 1) TAB, n)"
    by (simp only: take_i)
  moreover have "py_strip (p @ (w @ replicate (k - 1) TAB)) = p"
  proof -
    have "py_isspace TAB" by (simp add: py_isspace_def)
    then have "list_all py_isspace (w @ replicate (k - 1) TAB)"
      using assms(2) by (auto simp: list_all_iff)
    then show ?thesis using py_strip_append_space p(3) by metis
  qed
  ultimately show ?thesis
    using strip nomark n(2) p(1) by (simp add: parse_line_def)
qed

lemma parse_line_wf_line:
  "wf_phone p \<Longrightarrow> wf_name n \<Longrightarrow> 0 < k \<Longrightarrow> parse_line (p @ replicate k TAB @ n) = Some (p, n)"
  using parse_line_padded[of p "[]" n k] by simp

lemma parse_line_NL: "parse_line (l @ [NL]) = parse_line l"
  by (simp add: parse_line_def py_strip_append_space py_isspace_def)

lemma hd_py_strip:
  assumes "l \<noteq> []" and "\<not> py_isspace (hd l)"
  shows "py_strip l \<noteq> [] \<and> hd (py_strip l) = hd l"
proof -
  obtain w1 w2 where w: "l = w1 @ py_strip l @ w2" "list_all py_isspace w1" "list_all py_isspace w2"
    using py_strip_decomp by blast
  have "w1 = []"
  proof (rule ccontr)
    assume "w1 \<noteq> []"
    then have "hd l = hd w1" using w(1) by (metis hd_append2)
    with \<open>w1 \<noteq> []\<close> w(2) assms(2) show False by (cases w1) auto
  qed
  moreover have "py_strip l \<noteq> []"
  proof
    assume "py_strip l = []"
    then show False using py_strip_Nil_iff assms by (cases l) auto
  qed
  ultimately show ?thesis using w(1) by (metis append_Nil hd_append2)
qed

lemma parse_line_hd_not_class:
  "l \<noteq> [] \<Longrightarrow> \<not> py_isspace (hd l) \<Longrightarrow> \<not> phone_class (hd l) \<Longrightarrow> parse_line l = None"
  using hd_py_strip[of l] record_re_not_class[of "py_strip l"]
  by (simp add: parse_line_def Let_def)

lemma sep_name_re_tab_Cons:
  assumes "b \<noteq> []" and "NL \<notin> set b" and "\<not> py_isspace (last b)"
  shows "sep_name_re (TAB # b) \<noteq> None"
proof -
  let ?P = "\<lambda>c. c = TAB"
  let ?v = "dropWhile ?P b"
  have tw: "takeWhile ?P b = replicate (length (takeWhile ?P b)) TAB"
    by (rule list_all_eq_replicate) (simp add: list_all_iff, meson set_takeWhileD)
  have b: "TAB # b = replicate (Suc (length (takeWhile ?P b))) TAB @ ?v"
    by (metis tw replicate_Suc append_Cons takeWhile_dropWhile_id)
  have "?v \<noteq> []"
  proof
    assume "?v = []"
    then have "list_all ?P b" by (simp add: dropWhile_eq_Nil_conv list_all_iff)
    then have "last b = TAB" using last_in_set[OF assms(1)] by (simp add: list_all_iff)
    with assms(3) show False by (simp add: py_isspace_def)
  qed
  moreover have "hd ?v \<noteq> TAB"
    using calculation hd_dropWhile by blast
  moreover have "NL \<notin> set ?v"
    using assms(2) set_dropWhileD by force
  ultimately show ?thesis
    by (subst b, subst sep_name_re_tabs) simp_all
qed

lemma record_re_stripped:
  assumes rec: "record_re s = Some (g1, g2)" and ne: "s \<noteq> []"
    and hs: "\<not> py_isspace (last s)"
  shows "\<exists>i m. 0 < i \<and> i \<le> length (takeWhile phone_class s) \<and> 0 < m \<and> g1 = take i s \<and>
           drop i s = replicate m TAB @ g2 \<and> g2 \<noteq> [] \<and> NL \<notin> set g2 \<and>
           (\<forall>j. i < j \<and> j \<le> length (takeWhile phone_class s) \<longrightarrow> sep_name_re (drop j s) = None)"
proof -
  obtain i where i: "0 < i" "i \<le> length (takeWhile phone_class s)" "g1 = take i s"
      "sep_name_re (drop i s) = Some g2"
    and maxi: "\<forall>j. i < j \<and> j \<le> length (takeWhile phone_class s) \<longrightarrow> sep_name_re (drop j s) = None"
    using record_re_SomeE[OF rec] by blast
  obtain m e where m: "0 < m" "drop i s = replicate m TAB @ g2 @ e" "re_end e" "g2 \<noteq> []"
      "NL \<notin> set g2"
    using sep_name_re_SomeE[OF i(4)] by blast
  have "e = []"
  proof (rule ccontr)
    assume "e \<noteq> []"
    with m(3) have "e = [NL]" by (simp add: re_end_def)
    with m(2) have "drop i s \<noteq> []" and "last (drop i s) = NL" by simp_all
    then have "last s = NL" by (simp add: last_drop)
    with hs show False by (simp add: py_isspace_def)
  qed
  with i m maxi show ?thesis by (intro exI[of _ i] exI[of _ m]) simp
qed

lemma record_re_last_name:
  "drop i s = replicate m TAB @ g2 \<Longrightarrow> g2 \<noteq> [] \<Longrightarrow> last g2 = last s"
  by (metis append_is_Nil_conv drop_eq_Nil last_append last_drop not_le)

lemma record_re_name_no_tab:
  assumes rec: "record_re s = Some (g1, g2)" and ne: "s \<noteq> []"
    and hs: "\<not> py_isspace (last s)"
  shows "TAB \<notin> set (takeWhile phone_class (py_strip g2))"
proof
  define n where "n = py_strip g2"
  let ?L = "length (takeWhile phone_class s)"
  assume "TAB \<in> set (takeWhile phone_class (py_strip g2))"
  then obtain a c where tw: "takeWhile phone_class n = a @ TAB # c"
    unfolding n_def[symmetric] using split_list_first by metis
  define b where "b = c @ dropWhile phone_class n"
  have n_eq: "n = a @ TAB # b"
    using tw by (metis b_def append.assoc append_Cons takeWhile_dropWhile_id)
  have a_cls: "list_all phone_class a"
    using tw by (simp add: list_all_iff) (metis Un_iff set_append set_takeWhileD)
  obtain i m where i: "0 < i" "i \<le> ?L" "0 < m" "g1 = take i s"
      "drop i s = replicate m TAB @ g2" "g2 \<noteq> []" "NL \<notin> set g2"
    and maxi: "\<forall>j. i < j \<and> j \<le> ?L \<longrightarrow> sep_name_re (drop j s) = None"
    using record_re_stripped[OF rec ne hs] by blast
  have lg: "last g2 = last s" using record_re_last_name i(5,6) .
  obtain w1 w2 where w: "g2 = w1 @ n @ w2" "list_all py_isspace w1" "list_all py_isspace w2"
    using py_strip_decomp[of g2] unfolding n_def[symmetric] by blast
  have "w2 = []"
  proof (rule ccontr)
    assume "w2 \<noteq> []"
    then have "last g2 = last w2" using w(1) by simp
    moreover have "py_isspace (last w2)" using \<open>w2 \<noteq> []\<close> w(3) by (simp add: list_all_iff)
    ultimately show False using lg hs by simp
  qed
  then have g2: "g2 = w1 @ a @ TAB # b" using w(1) n_eq by simp
  define j where "j = i + m + length w1 + length a"
  have li: "length g1 = i"
    using i(2,4) length_takeWhile_le[of phone_class s] by simp
  have s_eq: "s = g1 @ (replicate m TAB @ w1 @ a) @ TAB # b"
    using i(4,5) g2 by (metis append_take_drop_id append.assoc)
  have dj: "drop j s = TAB # b"
    by (simp add: s_eq j_def li[symmetric])
  have tj: "take j s = g1 @ replicate m TAB @ w1 @ a"
    by (simp add: s_eq j_def li[symmetric])
  have "list_all phone_class (take j s)"
    using tj list_all_take_takeWhile[OF i(2)] i(4) a_cls w(2)
    by (auto simp: list_all_iff phone_class_space)
  moreover have "j \<le> length s" by (simp add: s_eq j_def li[symmetric])
  ultimately have "j \<le> ?L" by (rule length_takeWhile_ge)
  moreover have "i < j" using i(3) by (simp add: j_def)
  ultimately have none: "sep_name_re (TAB # b) = None"
    using maxi dj by metis
  have n_ne: "n \<noteq> []" using n_eq by simp
  have lastn: "\<not> py_isspace (last n)" using py_strip_last n_ne by (simp add: n_def)
  have b_ne: "b \<noteq> []"
  proof
    assume "b = []"
    then have "last n = TAB" using n_eq by simp
    with lastn show False by (simp add: py_isspace_def)
  qed
  moreover have "NL \<notin> set b" using i(7) g2 by simp
  moreover have "\<not> py_isspace (last b)"
    using lastn n_eq b_ne by simp
  ultimately have "sep_name_re (TAB # b) \<noteq> None" by (rule sep_name_re_tab_Cons)
  with none show False by simp
qed

lemma parse_line_SomeE:
  assumes "parse_line l = Some (p, n)"
  obtains g1 g2 where "py_strip l \<noteq> []" "\<not> marker_re (py_strip l)"
    "record_re (py_strip l) = Some (g1, g2)" "p = py_strip g1" "n = py_strip g2"
  using assms by (auto simp: parse_line_def Let_def split: if_splits option.splits)

lemma parse_line_sound:
  assumes "parse_line l = Some (p, n)"
  shows "wf_phone p \<and> wf_name n"
proof -
  define s where "s = py_strip l"
  obtain g1 g2 where ne: "s \<noteq> []" and rec: "record_re s = Some (g1, g2)"
    and pn: "p = py_strip g1" "n = py_strip g2"
    using parse_line_SomeE[OF assms] unfolding s_def[symmetric] by metis
  have hs: "\<not> py_isspace (hd s)" "\<not> py_isspace (last s)"
    using ne py_strip_hd py_strip_last by (simp_all add: s_def)
  obtain i m where i: "0 < i" "i \<le> length (takeWhile phone_class s)" "0 < m" "g1 = take i s"
      "drop i s = replicate m TAB @ g2" "g2 \<noteq> []" "NL \<notin> set g2"
    using record_re_stripped[OF rec ne hs(2)] by blast
  have g1: "g1 \<noteq> []" "hd g1 = hd s" "list_all phone_class g1"
    using i(1,2,4) ne list_all_take_takeWhile by auto
  have "py_strip g1 \<noteq> []"
    using g1(1,2) hs(1) by (cases g1) (simp_all add: py_strip_Nil_iff)
  moreover have "list_all phone_class (py_strip g1)"
    using g1(3) py_strip_set by (fastforce simp: list_all_iff)
  ultimately have "wf_phone p" by (simp add: wf_phone_def pn)
  moreover have "last g2 = last s" using record_re_last_name i(5,6) .
  then have "py_strip g2 \<noteq> []"
    using i(6) hs(2) last_in_set[OF i(6)] by (auto simp: py_strip_Nil_iff list_all_iff)
  moreover have "NL \<notin> set (py_strip g2)" using i(7) py_strip_set by blast
  moreover have "TAB \<notin> set (takeWhile phone_class (py_strip g2))"
    using record_re_name_no_tab[OF rec ne hs(2)] .
  ultimately show ?thesis by (simp add: wf_name_def pn)
qed

lemma parse_line_set:
  assumes "parse_line l = Some (p, n)"
  shows "set p \<subseteq> set (py_strip l) \<and> set n \<subseteq> set (py_strip l)"
proof -
  define s where "s = py_strip l"
  obtain g1 g2 where rec: "record_re s = Some (g1, g2)" and pn: "p = py_strip g1" "n = py_strip g2"
    using parse_line_SomeE[OF assms] unfolding s_def[symmetric] by metis
  obtain i where i: "g1 = take i s" "sep_name_re (drop i s) = Some g2"
    using record_re_SomeE[OF rec] by blast
  obtain m e where "drop i s = replicate m TAB @ g2 @ e"
    using sep_name_re_SomeE[OF i(2)] by blast
  then have "set g2 \<subseteq> set s" by (metis Un_iff set_append set_drop_subset subsetI subset_eq)
  moreover have "set g1 \<subseteq> set s" using i(1) by (simp add: set_take_subset)
  ultimately show ?thesis using py_strip_set pn unfolding s_def by blast
qed

lemma parse_line_blank: "list_all py_isspace l \<Longrightarrow> parse_line l = None"
  by (simp add: parse_line_def py_strip_Nil_iff)

lemma parse_line_marker: "marker_re (py_strip l) \<Longrightarrow> parse_line l = None"
  by (simp add: parse_line_def)

lemma parse_line_phone_segment:
  assumes "parse_line l = Some r"
  shows "list_all phone_class (takeWhile (\<lambda>c. c \<noteq> TAB) (py_strip l))"
proof -
  define s where "s = py_strip l"
  obtain p n where r: "r = (p, n)" by (cases r)
  obtain g1 g2 where ne: "s \<noteq> []" and rec: "record_re s = Some (g1, g2)"
    using parse_line_SomeE[OF assms[unfolded r]] unfolding s_def[symmetric] by metis
  have "\<not> py_isspace (last s)" using ne py_strip_last by (simp add: s_def)
  then obtain i m where i: "i \<le> length (takeWhile phone_class s)" "0 < m"
      "drop i s = replicate m TAB @ g2"
    using record_re_stripped[OF rec ne] by blast
  define t where "t = take i s"
  have t: "list_all phone_class t" using i(1) by (simp add: t_def)
  obtain m' where "m = Suc m'" using i(2) by (cases m) simp_all
  then have "s = t @ TAB # (replicate m' TAB @ g2)"
    using i(3) by (metis t_def append_take_drop_id replicate_Suc append_Cons)
  then have "set (takeWhile (\<lambda>c. c \<noteq> TAB) s) \<subseteq> set t"
    by (simp add: set_takeWhile_append_stop)
  with t show ?thesis by (auto simp: list_all_iff s_def)
qed

lemma parse_line_nomarker_eq: "parse_line_nomarker l = parse_line l"
proof (cases "marker_re (py_strip l)")
  case True
  then have "record_re (py_strip l) = None"
    using marker_not_phone_class record_re_not_class by blast
  with True show ?thesis
    by (simp add: parse_line_def parse_line_nomarker_def Let_def)
next
  case False
  then show ?thesis
    by (simp add: parse_line_def parse_line_nomarker_def Let_def split: option.splits)
qed

lemma load_loop_eq: "load_loop acc ls = acc @ List.map_filter parse_line ls"
  by (induction ls arbitrary: acc) (simp_all split: option.splits)

lemma translate_newlines_no_CR: "CR \<notin> set (translate_newlines t)"
  by (induction t rule: translate_newlines.induct) auto

lemma translate_newlines_id: "CR \<notin> set t \<Longrightarrow> translate_newlines t = t"
  by (induction t rule: translate_newlines.induct) auto

lemma concat_split_lines: "concat (split_lines cur s) = cur @ s"
  by (induction cur s rule: split_lines.induct) auto

lemma split_lines_shape:
  "l \<in> set (split_lines cur s) \<Longrightarrow> NL \<notin> set cur \<Longrightarrow>
   \<exists>u. NL \<notin> set u \<and> (l = u @ [NL] \<or> l = u)"
  by (induction cur s rule: split_lines.induct) (auto split: if_splits)

lemma split_lines_line:
  "NL \<notin> set u \<Longrightarrow> split_lines cur (u @ NL # s) = (cur @ u @ [NL]) # split_lines [] s"
  by (induction u arbitrary: cur) auto

lemma readlines_lines:
  assumes "list_all (\<lambda>u. NL \<notin> set u \<and> CR \<notin> set u) us"
  shows "py_readlines (concat (map (\<lambda>u. u @ [NL]) us)) = map (\<lambda>u. u @ [NL]) us"
proof -
  have "CR \<notin> set (concat (map (\<lambda>u. u @ [NL]) us))"
    using assms by (auto simp: list_all_iff)
  moreover have "split_lines [] (concat (map (\<lambda>u. u @ [NL]) us)) = map (\<lambda>u. u @ [NL]) us"
    using assms by (induction us) (simp_all add: split_lines_line)
  ultimately show ?thesis by (simp add: py_readlines_def translate_newlines_id)
qed

lemma readlines_line_shape:
  "l \<in> set (py_readlines t) \<Longrightarrow> CR \<notin> set l \<and> (\<exists>u. NL \<notin> set u \<and> (l = u @ [NL] \<or> l = u))"
proof -
  assume l: "l \<in> set (py_readlines t)"
  then have "set l \<subseteq> set (concat (split_lines [] (translate_newlines t)))"
    by (auto simp: py_readlines_def)
  then have "set l \<subseteq> set (translate_newlines t)"
    by (simp add: concat_split_lines)
  with translate_newlines_no_CR have "CR \<notin> set l" by blast
  moreover have "\<exists>u. NL \<notin> set u \<and> (l = u @ [NL] \<or> l = u)"
    using l split_lines_shape[of l "[]"] by (simp add: py_readlines_def)
  ultimately show ?thesis by blast
qed

lemma parse_line_wf_contact:
  assumes "parse_line l = Some r" and "CR \<notin> set l"
    and "NL \<notin> set u" and "l = u @ [NL] \<or> l = u"
  shows "wf_contact r"
proof -
  obtain p n where r: "r = (p, n)" by (cases r)
  have sub: "set (py_strip l) \<subseteq> set u"
    using assms(4) py_strip_set[of u] py_strip_append_space[of "[NL]" u]
    by (auto simp: py_isspace_def)
  have "set p \<subseteq> set (py_strip l)" "set n \<subseteq> set (py_strip l)"
    using parse_line_set assms(1) r by blast+
  moreover have "set (py_strip l) \<subseteq> set l" by (rule py_strip_set)
  ultimately show ?thesis
    using parse_line_sound[OF assms(1)[unfolded r]] sub assms(2,3) r
    by (auto simp: wf_contact_def)
qed

lemma load_wf: "list_all wf_contact (load_loop [] (py_readlines t))"
proof -
  have "list_all wf_contact (List.map_filter parse_line ls)"
    if "\<forall>l\<in>set ls. CR \<notin> set l \<and> (\<exists>u. NL \<notin> set u \<and> (l = u @ [NL] \<or> l = u))" for ls
    using that by (induction ls) (auto split: option.splits intro: parse_line_wf_contact)
  then show ?thesis
    using readlines_line_shape by (simp add: load_loop_eq)
qed

lemma split_lines_no_NL:
  "NL \<notin> set u \<Longrightarrow> split_lines cur u = (if cur @ u = [] then [] else [cur @ u])"
  by (induction u arbitrary: cur) auto

lemma readlines_single:
  "NL \<notin> set u \<Longrightarrow> CR \<notin> set u \<Longrightarrow> u \<noteq> [] \<Longrightarrow> py_readlines u = [u]"
  by (simp add: py_readlines_def translate_newlines_id split_lines_no_NL)

lemma length_translate_newlines: "length (translate_newlines t) \<le> length t"
  by (induction t rule: translate_newlines.induct) auto

lemma split_lines_nonempty: "l \<in> set (split_lines cur s) \<Longrightarrow> l \<noteq> []"
  by (induction cur s rule: split_lines.induct) (auto split: if_splits)

lemma length_le_concat: "\<forall>l\<in>set ls. l \<noteq> [] \<Longrightarrow> length ls \<le> length (concat ls)"
proof (induction ls)
  case (Cons a ls)
  then show ?case by (cases a) auto
qed simp

lemma length_readlines: "length (py_readlines t) \<le> length t"
proof -
  have "length (py_readlines t) \<le> length (concat (py_readlines t))"
    using split_lines_nonempty by (intro length_le_concat) (auto simp: py_readlines_def)
  also have "\<dots> = length (translate_newlines t)"
    by (simp add: py_readlines_def concat_split_lines)
  finally show ?thesis using length_translate_newlines[of t] by simp
qed

lemma length_load: "length (load_loop [] (py_readlines t)) \<le> length t"
proof -
  have "length (List.map_filter parse_line ls) \<le> length ls" for ls
    by (induction ls) (auto split: option.splits)
  then show ?thesis using length_readlines[of t] by (metis append_Nil load_loop_eq le_trans)
qed

lemma translate_newlines_Cons_other:
  "c \<noteq> CR \<Longrightarrow> translate_newlines (c # t) = c # translate_newlines t"
  by (cases t) simp_all

lemma translate_newlines_line:
  "CR \<notin> set u \<Longrightarrow> translate_newlines (u @ NL # t) = u @ NL # translate_newlines t"
  by (induction u) (simp_all add: translate_newlines_Cons_other)

lemma readlines_first_line:
  "NL \<notin> set u \<Longrightarrow> CR \<notin> set u \<Longrightarrow> py_readlines (u @ NL # t) = (u @ [NL]) # py_readlines t"
  by (simp add: py_readlines_def translate_newlines_line split_lines_line)

lemma wf_phone_last: "wf_phone p \<Longrightarrow> \<not> py_isspace (last p)"
  using py_strip_last[of p] by (simp add: wf_phone_def)

lemma wf_phone_tab_join: "wf_phone p \<Longrightarrow> wf_phone q \<Longrightarrow> wf_phone (p @ TAB # q)"
proof -
  assume p: "wf_phone p" and q: "wf_phone q"
  have "p \<noteq> []" "q \<noteq> []" using p q by (simp_all add: wf_phone_def)
  then have "py_strip (p @ TAB # q) = p @ TAB # q"
    using wf_phone_hd[OF p] wf_phone_last[OF q] by (intro py_strip_id) simp_all
  with p q show ?thesis by (simp add: wf_phone_def)
qed

subsection \<open>Properties\<close>

text \<open>C1: Every well-formed record line, a phone run of the class \<open>[+\d\s-]\<close>, one or
  more tabs and a name, yields exactly its record: loading a file of such lines gives back
  the records, one per line, in file order.\<close>

theorem load_wellformed_lines:
  assumes "list_all (\<lambda>(p, n). wf_phone p \<and> wf_name n) rs" and "0 < k"
  shows "load_loop [] (map (\<lambda>(p, n). p @ replicate k TAB @ n) rs) = rs"
proof -
  have "List.map_filter parse_line (map (\<lambda>(p, n). p @ replicate k TAB @ n) rs) = rs"
    using assms(1) by (induction rs) (auto simp: parse_line_wf_line[OF _ _ assms(2)])
  then show ?thesis by (simp add: load_loop_eq)
qed

theorem load_wellformed_lines_witness:
  "list_all (\<lambda>(p, n). wf_phone p \<and> wf_name n) [(ascii ''0501234567'', ascii ''Dina Cohen'')] \<and>
   (0::nat) < 2 \<and>
   load_loop [] (map (\<lambda>(p, n). p @ replicate 2 TAB @ n) [(ascii ''0501234567'', ascii ''Dina Cohen'')]) =
     [(ascii ''0501234567'', ascii ''Dina Cohen'')]"
proof -
  have h: "list_all (\<lambda>(p, n). wf_phone p \<and> wf_name n) [(ascii ''0501234567'', ascii ''Dina Cohen'')]"
    by (simp add: wf_phone_def wf_name_def phone_class_def pystr_defs)
  show ?thesis using load_wellformed_lines[OF h, of 2] h by simp
qed

text \<open>C12: A line that is blank, that starts (after stripping) with one of the marker code
  points, or whose text before the first tab contains a code point outside
  \<open>[+\d\s-]\<close> is dropped by the loop without an error.\<close>

theorem load_drops_rejected_line:
  assumes "list_all py_isspace l \<or> marker_re (py_strip l) \<or>
           \<not> list_all phone_class (takeWhile (\<lambda>c. c \<noteq> TAB) (py_strip l))"
  shows "load_loop acc (l # ls) = load_loop acc ls"
proof -
  have "parse_line l = None"
    using assms parse_line_blank parse_line_marker parse_line_phone_segment
    by (cases "parse_line l") blast+
  then show ?thesis by simp
qed

theorem load_drops_rejected_line_witness:
  "(list_all py_isspace (ascii ''=== Contacts ==='') \<or> marker_re (py_strip (ascii ''=== Contacts ==='')) \<or>
    \<not> list_all phone_class (takeWhile (\<lambda>c. c \<noteq> TAB) (py_strip (ascii ''=== Contacts ==='')))) \<and>
   load_loop [] [ascii ''=== Contacts ===''] = load_loop [] []"
proof -
  have h: "list_all py_isspace (ascii ''=== Contacts ==='') \<or> marker_re (py_strip (ascii ''=== Contacts ==='')) \<or>
    \<not> list_all phone_class (takeWhile (\<lambda>c. c \<noteq> TAB) (py_strip (ascii ''=== Contacts ==='')))"
    by (simp add: marker_re_def pystr_defs)
  show ?thesis using load_drops_rejected_line[OF h, of "[]" "[]"] h by simp
qed

text \<open>C21: The marker test of the loop is redundant: a line starting with \<open>=\<close> or one of
  the two emoji cannot match the record pattern, so the loop keeps the same records as a
  filter that only strips, skips blank lines and matches the pattern.\<close>

theorem load_loop_nomarker: "load_loop acc ls = acc @ List.map_filter parse_line_nomarker ls"
proof -
  have "parse_line_nomarker = parse_line"
    by (rule ext) (rule parse_line_nomarker_eq)
  then show ?thesis by (simp add: load_loop_eq)
qed

text \<open>C6: Shape of the stored records: whatever the file holds, every record that the Loader
  produces has a non-empty phone made only of code points of \<open>[+\d\s-]\<close> without
  surrounding whitespace, and a non-empty name without surrounding whitespace and without
  line breaks.\<close>

theorem load_records_shape:
  "list_all (\<lambda>(p, n). p \<noteq> [] \<and> list_all phone_class p \<and> py_strip p = p \<and>
                      n \<noteq> [] \<and> py_strip n = n \<and> NL \<notin> set n \<and> CR \<notin> set n)
     (load_loop [] (py_readlines t))"
  using load_wf[of t] by (auto simp: list_all_iff wf_contact_def wf_phone_def wf_name_def)

text \<open>C15: A byte-order mark costs the first record: the file is opened with
  \<open>encoding='utf-8'\<close>, which keeps U+FEFF, and U+FEFF is neither whitespace nor in
  \<open>[+\d\s-]\<close>. For every well-formed first record line and every rest of the file, the
  file with the mark loads only the records of the rest, while the same file without the
  mark loads the first record too.\<close>

theorem bom_drops_first_record:
  assumes "wf_contact (p, n)" and "0 < k"
  shows "load_loop [] (py_readlines (0xFEFF # p @ replicate k TAB @ n @ NL # t)) =
           load_loop [] (py_readlines t) \<and>
         load_loop [] (py_readlines (p @ replicate k TAB @ n @ NL # t)) =
           (p, n) # load_loop [] (py_readlines t)"
proof -
  let ?u = "p @ replicate k TAB @ n"
  have wf: "wf_phone p" "wf_name n" "NL \<notin> set p" "CR \<notin> set p" "CR \<notin> set n"
    using assms(1) by (simp_all add: wf_contact_def)
  then have u: "NL \<notin> set ?u" "CR \<notin> set ?u" by (auto simp: wf_name_def)
  have "parse_line (?u @ [NL]) = Some (p, n)"
    unfolding parse_line_NL by (rule parse_line_wf_line[OF wf(1,2) assms(2)])
  moreover have "parse_line ((0xFEFF # ?u) @ [NL]) = None"
    unfolding parse_line_NL
    by (rule parse_line_hd_not_class) (simp_all add: phone_class_def pystr_defs)
  ultimately show ?thesis
    using readlines_first_line[of ?u t] readlines_first_line[of "0xFEFF # ?u" t] u
    by (simp add: load_loop_eq)
qed

theorem bom_drops_first_record_witness:
  "wf_contact (ascii ''0501234567'', ascii ''Dina Cohen'') \<and> (0::nat) < 1 \<and>
   load_loop [] (py_readlines (0xFEFF # ascii ''0501234567'' @ replicate 1 TAB @ ascii ''Dina Cohen'' @ NL # [])) =
     load_loop [] (py_readlines []) \<and>
   load_loop [] (py_readlines (ascii ''0501234567'' @ replicate 1 TAB @ ascii ''Dina Cohen'' @ NL # [])) =
     (ascii ''0501234567'', ascii ''Dina Cohen'') # load_loop [] (py_readlines [])"
proof -
  have h: "wf_contact (ascii ''0501234567'', ascii ''Dina Cohen'')"
    by (simp add: wf_contact_def wf_phone_def wf_name_def phone_class_def pystr_defs)
  show ?thesis using bom_drops_first_record[OF h, of 1 "[]"] h by simp
qed

text \<open>C16: The phone group absorbs a following field of phone characters: \<open>\s\<close> in the
  class \<open>[+\d\s-]\<close> matches a tab, so the greedy group runs over
  \<open>phone TAB field\<close> and only the tabs before the name end it. For every two phone runs
  and every name, the line \<open>p TAB q TAB\<dots> n\<close> gives the phone \<open>p TAB q\<close> and the name
  \<open>n\<close>, not the phone \<open>p\<close> and the name \<open>q TAB\<dots> n\<close>.\<close>

theorem phone_absorbs_tab_field:
  assumes "wf_phone p" and "wf_phone q" and "wf_name n" and "0 < k"
  shows "parse_line (p @ [TAB] @ q @ replicate k TAB @ n) = Some (p @ [TAB] @ q, n)"
  using parse_line_wf_line[OF wf_phone_tab_join[OF assms(1,2)] assms(3,4)] by simp

theorem phone_absorbs_tab_field_witness:
  "wf_phone (ascii ''0501234567'') \<and> wf_phone (ascii ''12'') \<and> wf_name (ascii ''Bob'') \<and> (0::nat) < 1 \<and>
   parse_line (ascii ''0501234567'' @ [TAB] @ ascii ''12'' @ replicate 1 TAB @ ascii ''Bob'') =
     Some (ascii ''0501234567'' @ [TAB] @ ascii ''12'', ascii ''Bob'')"
proof -
  have h: "wf_phone (ascii ''0501234567'')" "wf_phone (ascii ''12'')" "wf_name (ascii ''Bob'')"
    by (simp_all add: wf_phone_def wf_name_def phone_class_def pystr_defs)
  show ?thesis using phone_absorbs_tab_field[OF h, of 1] h by simp
qed

end
