(* ===== verification/Store.thy ===== *)
theory Store
  imports Loader
begin

text \<open>
  The state of \<open>PhoneBookBot\<close> (\<open>src/bot.py\<close>) and the operations that read or replace it
  without replying: the two fields set by \<open>__init__\<close> (lines 10--11), the state update of
  \<open>load_data\<close> (lines 18--43), and the scan of \<open>handle_search\<close> (lines 75--80) that
  collects at most ten matches and leaves the loop with \<open>break\<close> at the tenth.
  Opening and reading the file is the input \<open>file_read\<close>: the decoded text, or the
  exception that \<open>open\<close> or the UTF-8 decoder raised (both caught by \<open>except
  Exception\<close>). The message printed in the handler is console output and not modelled.
  \<open>search_spec\<close> is the abstract contract of the scan (the first ten matching records, in
  stored order); \<open>search_results_spec\<close> proves that the loop implements it.
\<close>

record bot_state =
  data_loaded :: bool
  phone_data :: "contact list"

definition init_state :: bot_state where
  "init_state = \<lparr>data_loaded = False, phone_data = []\<rparr>"

datatype io_error = OSError | UnicodeDecodeError

type_synonym file_read = "io_error + pystr"

definition load_data :: "file_read \<Rightarrow> bot_state \<Rightarrow> bool \<times> bot_state" where
  "load_data f st =
     (case f of
        Inl _ \<Rightarrow> (False, st)
      | Inr text \<Rightarrow>
          (True, st\<lparr>phone_data := load_loop [] (py_readlines text), data_loaded := True\<rparr>))"

definition matches :: "pystr \<Rightarrow> contact \<Rightarrow> bool" where
  "matches query r =
     (case r of (phone, name) \<Rightarrow>
        py_contains (py_lower query) (py_lower phone) \<or> py_contains (py_lower query) (py_lower name))"

fun search_loop :: "pystr \<Rightarrow> contact list \<Rightarrow> contact list \<Rightarrow> contact list" where
  "search_loop query results [] = results"
| "search_loop query results (r # rs) =
     (if matches query r
      then (let results' = results @ [r] in
            if 10 \<le> length results' then results' else search_loop query results' rs)
      else search_loop query results rs)"

definition search_results :: "pystr \<Rightarrow> contact list \<Rightarrow> contact list" where
  "search_results query data = search_loop query [] data"

definition search_spec :: "pystr \<Rightarrow> contact list \<Rightarrow> contact list" where
  "search_spec query data = take 10 (filter (matches query) data)"

subsection \<open>Lemmas\<close>

lemma search_loop_take:
  "length results < 10 \<Longrightarrow>
   search_loop q results rs = results @ take (10 - length results) (filter (matches q) rs)"
proof (induction rs arbitrary: results)
  case Nil
  then show ?case by simp
next
  case (Cons r rs)
  show ?case
  proof (cases "matches q r")
    case True
    show ?thesis
    proof (cases "10 \<le> Suc (length results)")
      case True
      with Cons.prems have "length results = 9" by simp
      with \<open>matches q r\<close> show ?thesis by simp
    next
      case False
      then have d: "10 - length results = Suc (10 - Suc (length results))" by simp
      from False have "search_loop q (results @ [r]) rs =
          (results @ [r]) @ take (10 - Suc (length results)) (filter (matches q) rs)"
        using Cons.IH[of "results @ [r]"] by simp
      with False \<open>matches q r\<close> show ?thesis by (simp add: d)
    qed
  next
    case False
    with Cons show ?thesis by simp
  qed
qed

subsection \<open>Properties\<close>

text \<open>C2: The search loop of \<open>handle_search\<close>, with its early \<open>break\<close> at the tenth
  match, returns exactly the first ten records (or fewer) that match the query, in stored
  order: it implements the abstract contract \<open>search_spec\<close>.\<close>

theorem search_results_spec: "search_results q data = search_spec q data"
  by (simp add: search_results_def search_spec_def search_loop_take)

text \<open>C19: Once ten matches are found the scan stops: records after them are never examined,
  so appending any records after a prefix with ten matches does not change the result.\<close>

theorem search_early_exit:
  "10 \<le> length (filter (matches q) xs) \<Longrightarrow> search_results q (xs @ ys) = search_results q xs"
  by (simp add: search_results_def search_loop_take)

theorem search_early_exit_witness:
  "10 \<le> length (filter (matches (ascii ''a'')) (replicate 10 (ascii ''1'', ascii ''A''))) \<and>
   search_results (ascii ''a'') (replicate 10 (ascii ''1'', ascii ''A'') @ [(ascii ''2'', ascii ''a'')]) =
   search_results (ascii ''a'') (replicate 10 (ascii ''1'', ascii ''A''))"
proof -
  have h: "10 \<le> length (filter (matches (ascii ''a'')) (replicate 10 (ascii ''1'', ascii ''A'')))"
    by (simp add: matches_def pystr_defs lower_rules_def)
  show ?thesis using search_early_exit[OF h] h by simp
qed

text \<open>C22: Bounds of the search: the scan returns at most ten records, however many match.\<close>

theorem search_results_at_most_ten: "length (search_results q data) \<le> 10"
  by (simp add: search_results_def search_loop_take)

end
