(* ===== verification/Format.thy ===== *)
theory Format
  imports PyStr
begin

text \<open>
  \<open>PhoneBookBot.format_response\<close> (\<open>src/bot.py\<close>, lines 98--110): a title line
  \<open>"\<dots> {title}\n\n"\<close> (the clipboard emoji U+1F4CB, a space, the title and two line
  breaks, so that an empty line follows the title), a fixed two-column header line starting
  with the mobile-phone emoji, a divider of forty \<open>=\<close>, then one line per record: the
  phone padded with \<open>str.ljust(15)\<close>, a tab and the name. \<open>format_body\<close> is the loop
  of lines 104--108 with its accumulator \<open>body\<close>. The lemmas give the response as a list
  of terminated lines (\<open>format_response_lines\<close>), from which the line count and the round
  trip through the Loader follow.
\<close>

definition column_header :: pystr where
  "column_header =
    [0x1F4F1, 0x20, 0x634, 0x645, 0x627, 0x631, 0x647, 0x9, 0x9, 0x1F9D1,
     0x20, 0x646, 0x627, 0x645, 0x20, 0x28, 0x639, 0x628, 0x631, 0x6CC,
     0x29, 0xA]"

fun format_body :: "pystr \<Rightarrow> contact list \<Rightarrow> pystr" where
  "format_body body [] = body"
| "format_body body ((phone, name) # rest) =
     (let phone_part = py_ljust phone 15 in
      format_body (body @ phone_part @ [TAB] @ name @ [NL]) rest)"

definition format_response :: "contact list \<Rightarrow> pystr \<Rightarrow> pystr" where
  "format_response data title =
     (let header = [0x1F4CB, SPACE] @ title @ [NL, NL];
          header = header @ column_header;
          header = header @ replicate 40 0x3D @ [NL]
      in header @ format_body [] data)"

definition format_row :: "contact \<Rightarrow> pystr" where
  "format_row r = (case r of (phone, name) \<Rightarrow> py_ljust phone 15 @ TAB # name)"

definition header_lines :: "pystr \<Rightarrow> pystr list" where
  "header_lines title = [[0x1F4CB, SPACE] @ title, [], butlast column_header, replicate 40 0x3D]"

subsection \<open>Lemmas\<close>

lemma format_body_eq: "format_body b rs = b @ concat (map (\<lambda>r. format_row r @ [NL]) rs)"
  by (induction b rs rule: format_body.induct) (simp_all add: format_row_def)

lemma format_response_lines:
  "format_response data title = concat (map (\<lambda>u. u @ [NL]) (header_lines title @ map format_row data))"
  by (simp add: format_response_def header_lines_def format_body_eq column_header_def o_def)

lemma format_row_no_NL:
  "NL \<notin> set p \<Longrightarrow> NL \<notin> set n \<Longrightarrow> NL \<notin> set (format_row (p, n))"
  by (simp add: format_row_def py_ljust_def)

lemma count_list_terminated:
  "list_all (\<lambda>u. x \<notin> set u) us \<Longrightarrow> count_list (concat (map (\<lambda>u. u @ [x]) us)) x = length us"
  by (induction us) (simp_all add: count_list_0_iff)

subsection \<open>Properties\<close>

text \<open>C20: A response for a title without line breaks and records without line breaks has
  exactly four header lines (the title, an empty line, the column header and the divider)
  and one line per record: \<open>4 + length data\<close> line breaks in all.\<close>

theorem format_line_count:
  assumes "NL \<notin> set title" and "list_all (\<lambda>(p, n). NL \<notin> set p \<and> NL \<notin> set n) data"
  shows "count_list (format_response data title) NL = 4 + length data"
proof -
  have "list_all (\<lambda>u. NL \<notin> set u) (header_lines title @ map format_row data)"
    using assms format_row_no_NL
    by (auto simp: header_lines_def column_header_def list_all_iff)
  then have "count_list (concat (map (\<lambda>u. u @ [NL]) (header_lines title @ map format_row data))) NL =
      length (header_lines title @ map format_row data)"
    by (rule count_list_terminated)
  then show ?thesis
    by (simp only: format_response_lines) (simp add: header_lines_def)
qed

theorem format_line_count_witness:
  "NL \<notin> set (ascii ''dina'') \<and> list_all (\<lambda>(p, n). NL \<notin> set p \<and> NL \<notin> set n) [(ascii ''0501234567'', ascii ''Dina Cohen'')] \<and>
   count_list (format_response [(ascii ''0501234567'', ascii ''Dina Cohen'')] (ascii ''dina'')) NL = 5"
proof -
  have h1: "NL \<notin> set (ascii ''dina'')" by (simp add: ascii_def)
  have h2: "list_all (\<lambda>(p, n). NL \<notin> set p \<and> NL \<notin> set n) [(ascii ''0501234567'', ascii ''Dina Cohen'')]"
    by (simp add: ascii_def)
  show ?thesis using format_line_count[OF h1 h2] h1 h2 by simp
qed

end
