(* ===== verification/Sampling.thy ===== *)
theory Sampling
  imports Prelude "HOL-Library.Word" "HOL-Library.Stream" "HOL-Library.Multiset"
begin

text \<open>
  \<open>random.sample(population, k)\<close> of CPython 3.11 (\<open>Lib/random.py\<close>), which
  \<open>handle_start\<close> calls with \<open>k = min(5, len(phone_data))\<close> (\<open>src/bot.py\<close>, lines
  57--58). The generator is the Mersenne Twister; its output is modelled as an infinite
  stream of 32-bit words (\<open>32 word stream\<close>), one word per call of \<open>genrand_uint32\<close>,
  and every function returns the rest of the stream it did not consume.
  \<^item> \<open>getrandbits\<close>: \<open>_random_Random_getrandbits_impl\<close>: no word for \<open>k = 0\<close>, the top
    \<open>k\<close> bits of one word for \<open>k \<le> 32\<close>, otherwise 32-bit words from the least
    significant end, the last one shifted right;
  \<^item> \<open>randbelow\<close>: \<open>_randbelow_with_getrandbits\<close>: draw \<open>n.bit_length()\<close> bits until the
    value is below \<open>n\<close>. The loop need not end (for \<open>n = 0\<close> it never does), so it is a
    \<open>partial_function (option)\<close>: \<open>None\<close> is a call that never returns;
  \<^item> \<open>py_sample\<close>: the \<open>ValueError\<close> for \<open>k > n\<close>, the table size \<open>setsize\<close>, the
    pool branch (\<open>pool_loop\<close>: move the last unselected element into the vacancy) and the
    selected-set branch (\<open>set_loop\<close>, with \<open>draw_unselected\<close> for the inner
    \<open>while j in selected\<close> loop). The list \<open>result = [None] * k\<close> filled at indices
    \<open>0, \<dots>, k - 1\<close> in order is modelled by appending.
\<close>

type_synonym mt_stream = "32 word stream"

fun bit_length :: "nat \<Rightarrow> nat" where
  "bit_length n = (if n = 0 then 0 else Suc (bit_length (n div 2)))"

fun getrandbits :: "nat \<Rightarrow> mt_stream \<Rightarrow> nat \<times> mt_stream" where
  "getrandbits k s =
     (if k = 0 then (0, s)
      else if k \<le> 32 then (unat (drop_bit (32 - k) (shd s)), stl s)
      else (case getrandbits (k - 32) (stl s) of (hi, s') \<Rightarrow> (unat (shd s) + 2 ^ 32 * hi, s')))"

partial_function (option) randbelow_loop :: "nat \<Rightarrow> nat \<Rightarrow> mt_stream \<Rightarrow> (nat \<times> mt_stream) option" where
  "randbelow_loop n k s =
     (case getrandbits k s of (r, s') \<Rightarrow> if r < n then Some (r, s') else randbelow_loop n k s')"

definition randbelow :: "nat \<Rightarrow> mt_stream \<Rightarrow> (nat \<times> mt_stream) option" where
  "randbelow n s = randbelow_loop n (bit_length n) s"

partial_function (option) draw_unselected ::
  "nat \<Rightarrow> nat set \<Rightarrow> mt_stream \<Rightarrow> (nat \<times> mt_stream) option" where
  "draw_unselected n selected s =
     (case randbelow n s of
        None \<Rightarrow> None
      | Some (j, s') \<Rightarrow> if j \<in> selected then draw_unselected n selected s' else Some (j, s'))"

fun pool_loop ::
  "nat \<Rightarrow> nat \<Rightarrow> nat \<Rightarrow> 'a list \<Rightarrow> 'a list \<Rightarrow> mt_stream \<Rightarrow> ('a list \<times> mt_stream) option" where
  "pool_loop n i 0 pool result s = Some (result, s)"
| "pool_loop n i (Suc m) pool result s =
     (case randbelow (n - i) s of
        None \<Rightarrow> None
      | Some (j, s') \<Rightarrow>
          pool_loop n (Suc i) m (pool[j := pool ! (n - i - 1)]) (result @ [pool ! j]) s')"

fun set_loop ::
  "nat \<Rightarrow> nat \<Rightarrow> 'a list \<Rightarrow> nat set \<Rightarrow> 'a list \<Rightarrow> mt_stream \<Rightarrow> ('a list \<times> mt_stream) option" where
  "set_loop n 0 population selected result s = Some (result, s)"
| "set_loop n (Suc m) population selected result s =
     (case draw_unselected n selected s of
        None \<Rightarrow> None
      | Some (j, s') \<Rightarrow> set_loop n m population (insert j selected) (result @ [population ! j]) s')"

text \<open>\<open>_ceil(_log(k * 3, 4))\<close>: the least \<open>e\<close> with \<open>4 ^ e \<ge> 3 k\<close> (\<open>3 k\<close> is
  never a power of four, so the floating-point logarithm is not at an integer).\<close>

fun clog4 :: "nat \<Rightarrow> nat" where
  "clog4 m = (if m \<le> 1 then 0 else Suc (clog4 ((m + 3) div 4)))"

definition setsize :: "nat \<Rightarrow> nat" where
  "setsize k = 21 + (if 5 < k then 4 ^ clog4 (k * 3) else 0)"

datatype sample_error = ValueError

definition py_sample ::
  "'a list \<Rightarrow> nat \<Rightarrow> mt_stream \<Rightarrow> (sample_error + 'a list \<times> mt_stream) option" where
  "py_sample population k s =
     (let n = length population in
      if n < k then Some (Inl ValueError)
      else map_option Inr
        (if n \<le> setsize k then pool_loop n 0 k population [] s
         else set_loop n k population {} [] s))"

subsection \<open>Bit lengths and raw draws\<close>

declare bit_length.simps [simp del] clog4.simps [simp del]

lemma bit_length_le: "n < 2 ^ m \<Longrightarrow> bit_length n \<le> m"
proof (induction n arbitrary: m rule: bit_length.induct)
  case (1 n)
  show ?case
  proof (cases "n = 0")
    case False
    then obtain m' where m: "m = Suc m'" using "1.prems" by (cases m) auto
    have "n div 2 < 2 ^ m'" using "1.prems" by (simp add: m)
    then show ?thesis using "1.IH"[OF False] False by (subst bit_length.simps) (simp add: m)
  qed (subst bit_length.simps; simp)
qed

lemma bit_length_less: "n < 2 ^ bit_length n"
  by (induction n rule: bit_length.induct) (subst bit_length.simps; simp; presburger)

lemma bit_length_pos [simp]: "0 < bit_length n \<longleftrightarrow> 0 < n"
  by (subst bit_length.simps) simp

lemma getrandbits_bound: "fst (getrandbits k s) < 2 ^ k"
proof (induction k s rule: getrandbits.induct)
  case (1 k s)
  show ?case
  proof (cases "k = 0 \<or> k \<le> 32")
    case True
    have "unat (shd s) < 2 ^ k * 2 ^ (32 - k)" if "k \<le> 32"
      using unsigned_less[of "shd s", where ?'a = nat] that by (simp flip: power_add)
    then have "unat (shd s) div 2 ^ (32 - k) < 2 ^ k" if "k \<le> 32"
      using that by (simp add: less_mult_imp_div_less)
    moreover have "unat (drop_bit (32 - k) (shd s)) = unat (shd s) div 2 ^ (32 - k)"
      unfolding unat_drop_bit_eq by (simp add: drop_bit_eq_div)
    ultimately show ?thesis using True by (cases "k = 0") simp_all
  next
    case False
    obtain hi s' where gs: "getrandbits (k - 32) (stl s) = (hi, s')" by fastforce
    have "hi < 2 ^ (k - 32)" using "1.IH" False gs by fastforce
    then have "(2::nat) ^ 32 + 2 ^ 32 * hi \<le> 2 ^ 32 * 2 ^ (k - 32)"
      by (metis Suc_leI mult_Suc_right mult_le_mono2 add.commute)
    also have "\<dots> = 2 ^ (32 + (k - 32))" by (simp only: power_add)
    also have "\<dots> = 2 ^ k" using False by simp
    finally show ?thesis
      using unsigned_less[of "shd s", where ?'a = nat] False gs by simp
  qed
qed

lemma getrandbits_word:
  "0 < k \<Longrightarrow> k \<le> 32 \<Longrightarrow> getrandbits k s = (unat (drop_bit (32 - k) (shd s)), stl s)"
  by simp

lemma getrandbits_sconst0: "getrandbits k (sconst 0) = (0, sconst 0)"
  by (induction k "sconst (0 :: 32 word)" rule: getrandbits.induct) simp

declare getrandbits.simps [simp del]

subsection \<open>The rejection loop\<close>

lemma randbelow_loop_less:
  assumes "randbelow_loop n k s = Some p" shows "fst p < n"
  by (rule randbelow_loop.raw_induct[where P = "\<lambda>n k s p. fst p < n", OF _ assms])
    (auto split: prod.splits if_splits)

lemma randbelow_less: "randbelow n s = Some (r, s') \<Longrightarrow> r < n"
  unfolding randbelow_def using randbelow_loop_less by fastforce

lemma randbelow_loop_accept:
  "fst (getrandbits k s) < n \<Longrightarrow> randbelow_loop n k s = Some (getrandbits k s)"
  by (subst randbelow_loop.simps) (simp add: case_prod_beta)

lemma randbelow_loop_reject:
  "\<not> fst (getrandbits k s) < n \<Longrightarrow> randbelow_loop n k s = randbelow_loop n k (snd (getrandbits k s))"
  by (subst randbelow_loop.simps) (simp add: case_prod_beta)

lemma randbelow_loop_first_accepted:
  assumes "0 < k" and "k \<le> 32" and "unat (drop_bit (32 - k) (s !! i)) < n"
  shows "\<exists>j \<le> i. randbelow_loop n k s = Some (unat (drop_bit (32 - k) (s !! j)), sdrop (Suc j) s) \<and>
           (\<forall>l < j. \<not> unat (drop_bit (32 - k) (s !! l)) < n)"
  using assms(3)
proof (induction i arbitrary: s)
  case 0
  then show ?case using assms(1,2) by (simp add: randbelow_loop_accept getrandbits_word)
next
  case (Suc i)
  show ?case
  proof (cases "unat (drop_bit (32 - k) (shd s)) < n")
    case True
    then show ?thesis using assms(1,2) by (auto simp: randbelow_loop_accept getrandbits_word)
  next
    case False
    obtain j where j: "j \<le> i"
      "randbelow_loop n k (stl s) = Some (unat (drop_bit (32 - k) (stl s !! j)), sdrop (Suc j) (stl s))"
      "\<forall>l < j. \<not> unat (drop_bit (32 - k) (stl s !! l)) < n"
      using Suc.IH[of "stl s"] Suc.prems by auto
    have "randbelow_loop n k s = randbelow_loop n k (stl s)"
      using False assms(1,2) by (simp add: randbelow_loop_reject getrandbits_word)
    moreover have "\<forall>l < Suc j. \<not> unat (drop_bit (32 - k) (s !! l)) < n"
      using j(3) False by (auto simp: less_Suc_eq_0_disj)
    ultimately show ?thesis using j(1,2) by (intro exI[of _ "Suc j"]) simp
  qed
qed

lemma randbelow_sconst0: "0 < n \<Longrightarrow> randbelow n (sconst 0) = Some (0, sconst 0)"
  by (simp add: randbelow_def randbelow_loop_accept getrandbits_sconst0)

lemma draw_unselected_SomeD:
  assumes "draw_unselected n sel s = Some p" shows "fst p < n \<and> fst p \<notin> sel"
  by (rule draw_unselected.raw_induct[where P = "\<lambda>n sel s p. fst p < n \<and> fst p \<notin> sel",
        OF _ assms])
    (auto split: option.splits prod.splits if_splits dest: randbelow_less)

subsection \<open>The two branches of \<open>random.sample\<close>\<close>

text \<open>One step of the pool branch: taking \<open>pool[j]\<close> out of the first \<open>l\<close> slots and
  moving \<open>pool[l - 1]\<close> into slot \<open>j\<close> leaves the other elements of the first \<open>l\<close>
  slots in the first \<open>l - 1\<close>.\<close>

lemma mset_take_swap_last:
  assumes "j < l" and "l \<le> length xs"
  shows "add_mset (xs ! j) (mset (take (l - 1) (xs[j := xs ! (l - 1)]))) = mset (take l xs)"
proof -
  have tl: "take l xs = take (l - 1) xs @ [xs ! (l - 1)]"
    using assms take_Suc_conv_app_nth[of "l - 1" xs] by simp
  show ?thesis
  proof (cases "j = l - 1")
    case True
    then show ?thesis by (simp add: tl)
  next
    case False
    define T where "T = take (l - 1) xs"
    have jT: "j < length T" and Tj: "T ! j = xs ! j"
      using assms False by (simp_all add: T_def)
    have "take (l - 1) (xs[j := xs ! (l - 1)]) = T[j := xs ! (l - 1)]"
      by (simp add: take_update_swap T_def)
    then have "mset (take (l - 1) (xs[j := xs ! (l - 1)])) = add_mset (xs ! (l - 1)) (mset T - {#xs ! j#})"
      using mset_update[OF jT] by (simp add: Tj)
    moreover have "xs ! j \<in># mset T" using jT Tj by (metis nth_mem set_mset_mset)
    moreover have "mset (take l xs) = add_mset (xs ! (l - 1)) (mset T)" by (simp add: tl T_def)
    ultimately show ?thesis by (simp add: add_mset_commute[of "xs ! j"] insert_DiffM)
  qed
qed

lemma pool_loop_SomeD:
  "pool_loop n i m pool res s = Some (res', s') \<Longrightarrow> length pool = n \<Longrightarrow> i + m \<le> n \<Longrightarrow>
   length res' = length res + m \<and> mset res' \<subseteq># mset res + mset (take (n - i) pool)"
proof (induction m arbitrary: i pool res s)
  case 0
  then show ?case by simp
next
  case (Suc m)
  obtain j s1 where rb: "randbelow (n - i) s = Some (j, s1)"
    using Suc.prems(1) by (auto split: option.splits)
  have j: "j < n - i" using randbelow_less[OF rb] .
  define pool1 where "pool1 = pool[j := pool ! (n - i - 1)]"
  have run: "pool_loop n (Suc i) m pool1 (res @ [pool ! j]) s1 = Some (res', s')"
    using Suc.prems(1) rb by (simp add: pool1_def)
  have IH: "length res' = length res + Suc m \<and>
      mset res' \<subseteq># mset (res @ [pool ! j]) + mset (take (n - Suc i) pool1)"
    using Suc.IH[OF run] Suc.prems(2,3) by (simp add: pool1_def)
  have E: "add_mset (pool ! j) (mset (take (n - i - 1) pool1)) = mset (take (n - i) pool)"
    unfolding pool1_def using j Suc.prems(2) by (intro mset_take_swap_last) simp_all
  have F: "mset (res @ [pool ! j]) + mset (take (n - Suc i) pool1) = mset res + mset (take (n - i) pool)"
    by (simp flip: E)
  show ?case using IH by (simp only: F)
qed

lemma set_loop_SomeD:
  "set_loop n m pop sel res s = Some (res', s') \<Longrightarrow>
   \<exists>js. length js = m \<and> distinct js \<and> set js \<inter> sel = {} \<and> set js \<subseteq> {..<n} \<and>
        res' = res @ map ((!) pop) js"
proof (induction m arbitrary: sel res s)
  case 0
  then show ?case by simp
next
  case (Suc m)
  obtain j s1 where du: "draw_unselected n sel s = Some (j, s1)"
    using Suc.prems by (auto split: option.splits)
  have j: "j < n" "j \<notin> sel" using draw_unselected_SomeD[OF du] by simp_all
  obtain js where js: "length js = m" "distinct js" "set js \<inter> insert j sel = {}" "set js \<subseteq> {..<n}"
    "res' = (res @ [pop ! j]) @ map ((!) pop) js"
    using Suc.IH[of "insert j sel" "res @ [pop ! j]" s1] Suc.prems du by auto
  show ?case using js j by (intro exI[of _ "j # js"]) auto
qed

lemma mset_map_nth_distinct:
  assumes "distinct js" and "set js \<subseteq> {..<length xs}"
  shows "mset (map ((!) xs) js) \<subseteq># mset xs"
proof -
  have "mset js \<subseteq># mset [0..<length xs]"
    using assms by (simp flip: mset_set_set add: lessThan_atLeast0)
  then have "image_mset ((!) xs) (mset js) \<subseteq># image_mset ((!) xs) (mset [0..<length xs])"
    by (rule image_mset_subseteq_mono)
  moreover have "image_mset ((!) xs) (mset [0..<length xs]) = mset xs"
    by (metis map_nth mset_map)
  ultimately show ?thesis by simp
qed

subsection \<open>Liveness on a stream in which every word recurs\<close>

text \<open>The loops of \<open>random.sample\<close> return on every stream in which each 32-bit word
  occurs again after any position (\<open>\<forall>w i. \<exists>j\<ge>i. s !! j = w\<close>): the output of an
  ideal generator has this property with probability one. The word that the draw of
  \<open>b\<close> bits reads as \<open>v\<close> is \<open>v * 2 ^ (32 - b)\<close>.\<close>

lemma draw_of_word:
  assumes "b \<le> 32" and "v < 2 ^ b"
  shows "unat (drop_bit (32 - b) (word_of_nat (v * 2 ^ (32 - b)) :: 32 word)) = v"
proof -
  have "v * 2 ^ (32 - b) < 2 ^ b * 2 ^ (32 - b)" using assms(2) by simp
  also have "\<dots> = 2 ^ 32" using assms(1) by (simp flip: power_add)
  finally have "unat (word_of_nat (v * 2 ^ (32 - b)) :: 32 word) = v * 2 ^ (32 - b)"
    by (simp only: unat_of_nat) simp
  then show ?thesis unfolding unat_drop_bit_eq by (simp add: drop_bit_eq_div)
qed

lemma recurring_sdrop:
  "\<forall>w i. \<exists>j\<ge>i. s !! j = w \<Longrightarrow> \<forall>w i. \<exists>j\<ge>i. sdrop q s !! j = w"
  by (metis add_le_cancel_left le_add_diff_inverse le_add1 order_trans sdrop_snth)

lemma ex_sdrop_stl [simp]: "\<exists>q. sdrop j (stl s) = sdrop q s"
  by (metis sdrop.simps(2))

lemma randbelow_hits:
  assumes "0 < n" and "n < 2 ^ 32"
    and "unat (drop_bit (32 - bit_length n) (s !! p)) < n"
  shows "\<exists>j \<le> p. randbelow n s = Some (unat (drop_bit (32 - bit_length n) (s !! j)), sdrop (Suc j) s) \<and>
           (\<forall>l < j. \<not> unat (drop_bit (32 - bit_length n) (s !! l)) < n)"
  unfolding randbelow_def
  using randbelow_loop_first_accepted[OF _ bit_length_le[OF assms(2)] assms(3)] assms(1) by simp

lemma randbelow_recurring:
  assumes "0 < n" and "n < 2 ^ 32" and "\<forall>w i. \<exists>j\<ge>i. s !! j = w"
  shows "\<exists>j q. randbelow n s = Some (j, sdrop q s)"
proof -
  obtain p where "s !! p = 0" using assms(3) by blast
  then show ?thesis using randbelow_hits[OF assms(1,2), of s p] assms(1) by auto
qed

lemma draw_unselected_step:
  "randbelow n s = Some (j, s') \<Longrightarrow>
   draw_unselected n sel s = (if j \<in> sel then draw_unselected n sel s' else Some (j, s'))"
  by (subst draw_unselected.simps) simp

lemma draw_unselected_hits:
  assumes "0 < n" and "n < 2 ^ 32" and "v < n" and "v \<notin> sel"
    and "s !! p = word_of_nat (v * 2 ^ (32 - bit_length n))"
  shows "\<exists>j q. draw_unselected n sel s = Some (j, sdrop q s)"
  using assms(5)
proof (induction p arbitrary: s rule: less_induct)
  case (less p)
  have "v < 2 ^ bit_length n" using assms(3) bit_length_less[of n] by simp
  then have dv: "unat (drop_bit (32 - bit_length n) (s !! p)) = v"
    using less.prems draw_of_word[OF bit_length_le[OF assms(2)]] by simp
  then obtain j where j: "j \<le> p"
    "randbelow n s = Some (unat (drop_bit (32 - bit_length n) (s !! j)), sdrop (Suc j) s)"
    using randbelow_hits[OF assms(1,2), of s p] assms(3) by auto
  show ?case
  proof (cases "unat (drop_bit (32 - bit_length n) (s !! j)) \<in> sel")
    case False
    then show ?thesis using draw_unselected_step[OF j(2)] by auto
  next
    case True
    with dv assms(4) j(1) have jp: "j < p" by (cases "j = p") auto
    have "sdrop (Suc j) s !! (p - Suc j) = word_of_nat (v * 2 ^ (32 - bit_length n))"
      using less.prems jp by (simp only: sdrop_snth) simp
    moreover have "p - Suc j < p" using jp by simp
    ultimately obtain j' q where "draw_unselected n sel (sdrop (Suc j) s) = Some (j', sdrop q (sdrop (Suc j) s))"
      using less.IH by blast
    then show ?thesis using draw_unselected_step[OF j(2)] True by auto
  qed
qed

lemma pool_loop_returns:
  "n < 2 ^ 32 \<Longrightarrow> i + m \<le> n \<Longrightarrow> \<forall>w i. \<exists>j\<ge>i. s !! j = w \<Longrightarrow>
   \<exists>r. pool_loop n i m pool res s = Some r"
proof (induction m arbitrary: i pool res s)
  case (Suc m)
  have "0 < n - i" and "n - i < 2 ^ 32" using Suc.prems(1,2) by simp_all
  then obtain j q where "randbelow (n - i) s = Some (j, sdrop q s)"
    using randbelow_recurring Suc.prems(3) by blast
  then show ?case using Suc.IH[of "Suc i" "sdrop q s"] Suc.prems recurring_sdrop[of s q] by simp
qed simp

lemma set_loop_returns:
  "n < 2 ^ 32 \<Longrightarrow> finite sel \<Longrightarrow> sel \<subseteq> {..<n} \<Longrightarrow> card sel + m \<le> n \<Longrightarrow>
   \<forall>w i. \<exists>j\<ge>i. s !! j = w \<Longrightarrow> \<exists>r. set_loop n m pop sel res s = Some r"
proof (induction m arbitrary: sel res s)
  case (Suc m)
  obtain v where v: "v < n" "v \<notin> sel"
  proof -
    have "\<not> {..<n} \<subseteq> sel"
      using Suc.prems(2,4) card_mono[of sel "{..<n}"] by auto
    then show ?thesis using that by blast
  qed
  obtain p where p: "s !! p = word_of_nat (v * 2 ^ (32 - bit_length n))" using Suc.prems(5) by blast
  have n0: "0 < n" using v(1) by simp
  obtain j q where du: "draw_unselected n sel s = Some (j, sdrop q s)"
    using draw_unselected_hits[OF n0 Suc.prems(1) v p] by blast
  have "j < n" "j \<notin> sel" using draw_unselected_SomeD[OF du] by simp_all
  then show ?case
    using Suc.IH[of "insert j sel" "sdrop q s"] Suc.prems recurring_sdrop[of s q] du by simp
qed simp


lemma counting_stream_snth: "siterate (\<lambda>w. w + 1) (x :: 32 word) !! j = x + word_of_nat j"
  by (induction j arbitrary: x) (simp_all del: snth_siterate)

lemma counting_stream_recurring: "\<forall>w i. \<exists>j\<ge>i. siterate (\<lambda>w. w + 1) (0 :: 32 word) !! j = w"
proof (intro allI)
  fix w :: "32 word" and i :: nat
  have "(word_of_nat (2 ^ 32 * i) :: 32 word) = 0"
    by (subst word_of_nat_eq_0_iff) simp
  then have "(word_of_nat (unat w + 2 ^ 32 * i) :: 32 word) = w"
    by (simp only: of_nat_add of_nat_unat) simp
  moreover have "i \<le> unat w + 2 ^ 32 * i" by simp
  ultimately show "\<exists>j\<ge>i. siterate (\<lambda>w. w + 1) (0 :: 32 word) !! j = w"
    unfolding counting_stream_snth by (metis add_0)
qed

subsection \<open>The sample as a whole\<close>

lemma py_sample_InrD:
  assumes "py_sample pop k s = Some (Inr (res, s'))"
  shows "length res = k \<and> mset res \<subseteq># mset pop"
proof (cases "length pop \<le> setsize k")
  case True
  then have "pool_loop (length pop) 0 k pop [] s = Some (res, s')" and "k \<le> length pop"
    using assms by (auto simp: py_sample_def Let_def split: if_splits)
  then show ?thesis using pool_loop_SomeD by fastforce
next
  case False
  then have "set_loop (length pop) k pop {} [] s = Some (res, s')"
    using assms by (auto simp: py_sample_def Let_def split: if_splits)
  then obtain js where "length js = k" "distinct js" "set js \<subseteq> {..<length pop}"
    "res = map ((!) pop) js"
    using set_loop_SomeD by fastforce
  then show ?thesis using mset_map_nth_distinct by simp
qed

lemma py_sample_total:
  assumes "k \<le> length pop" and "length pop < 2 ^ 32" and "\<forall>w i. \<exists>j\<ge>i. s !! j = w"
  shows "\<exists>res s'. py_sample pop k s = Some (Inr (res, s'))"
proof (cases "length pop \<le> setsize k")
  case True
  then show ?thesis
    using pool_loop_returns[of "length pop" 0 k s pop "[]"] assms by (auto simp: py_sample_def)
next
  case False
  then show ?thesis
    using set_loop_returns[of "length pop" "{}" k s pop "[]"] assms by (auto simp: py_sample_def)
qed

subsection \<open>Properties\<close>

text \<open>C8: A sample that \<open>random.sample\<close> returns has exactly \<open>k\<close> elements and takes each
  element of the population at most as often as it occurs there (a sub-multiset), in the
  pool branch and in the selected-set branch.\<close>

theorem py_sample_submultiset:
  assumes "py_sample pop k s = Some (Inr (res, s'))"
  shows "length res = k \<and> mset res \<subseteq># mset pop"
  using py_sample_InrD[OF assms] .

theorem py_sample_submultiset_witness:
  "py_sample [(1::nat), 2, 3] 2 (sconst 0) =
     Some (Inr ([(1::nat), 3], sconst 0)) \<and>
   length [(1::nat), 3] = 2 \<and>
   mset [(1::nat), 3] \<subseteq>#
     mset [(1::nat), 2, 3]"
proof -
  have h: "py_sample [(1::nat), 2, 3] 2 (sconst 0) =
     Some (Inr ([(1::nat), 3], sconst 0))"
    by (simp add: py_sample_def setsize_def randbelow_sconst0 numeral_2_eq_2)
  show ?thesis using h py_sample_submultiset[OF h] by simp
qed

text \<open>C11: Liveness: on every stream of generator words in which each 32-bit word occurs
  again after any position, \<open>random.sample(population, k)\<close> returns a sample for every
  \<open>k \<le> len(population)\<close> (population below \<open>2 ^ 32\<close>), in the pool branch and in the
  selected-set branch, although its rejection loops have no bound.\<close>

theorem py_sample_returns:
  assumes "k \<le> length pop" and "length pop < 2 ^ 32" and "\<forall>w i. \<exists>j\<ge>i. s !! j = w"
  shows "\<exists>res s'. py_sample pop k s = Some (Inr (res, s'))"
  using py_sample_total[OF assms] .

theorem py_sample_returns_witness:
  "5 \<le> length (replicate 22 (1::nat)) \<and>
   length (replicate 22 (1::nat)) < 2 ^ 32 \<and>
   (\<forall>w i. \<exists>j\<ge>i. siterate (\<lambda>w. w + 1) (0 :: 32 word) !! j = w) \<and>
   (\<exists>res s'. py_sample (replicate 22 (1::nat)) 5 (siterate (\<lambda>w. w + 1) 0) =
      Some (Inr (res, s')))"
  using py_sample_returns[OF _ _ counting_stream_recurring, of 5 "replicate 22 (1::nat)"]
    counting_stream_recurring by simp

end
