(* ===== verification/Handlers.thy ===== *)
theory Handlers
  imports Store Format Sampling
begin

text \<open>
  The three handlers of \<open>PhoneBookBot\<close> (\<open>src/bot.py\<close>, lines 45--96), the routing of
  \<open>__init__\<close> (lines 14--16) and the bot as a state machine.
  \<^item> The replies are the exact code points of the string literals of the source.
  \<^item> \<open>handle_start\<close> (lines 45--62) loads the file on its first successful call, then
    replies with a sample of \<open>min(5, len(phone_data))\<close> records under the title of
    line 61. Its inputs are the outcome of reading the file now (\<open>file_read\<close>) and the
    generator's word stream; \<open>None\<close> is a call whose sampling never returns, and
    \<open>Raise\<close> an exception that escapes the handler.
  \<^item> \<open>handle_search\<close> (lines 64--87) never loads and never changes the state.
  \<^item> \<open>route\<close>: the filters of lines 14--16, tried in their order of registration; the
    first that accepts the text selects the handler (the dispatcher is \<open>rubpy\<close>'s, and this
    priority is the one the specification gives it). Updates that are not text reach no
    handler and are not modelled.
  \<^item> \<open>on_message\<close> is one update handled to completion; \<open>bot_step\<close> is the step relation
    over all texts, file outcomes and streams, and \<open>reachable\<close> its reachable states from
    \<open>init_state\<close>.
\<close>

definition msg_load_error :: pystr where
  "msg_load_error =
     [0x274C, 0x20, 0x62E, 0x637, 0x627, 0x20, 0x62F, 0x631, 0x20, 0x628, 0x627, 0x631,
      0x6AF, 0x630, 0x627, 0x631, 0x6CC, 0x20, 0x62F, 0x627, 0x62F, 0x647, 0x200C, 0x647,
      0x627, 0x21]"

definition msg_no_data :: pystr where
  "msg_no_data =
     [0x26A0, 0xFE0F, 0x20, 0x647, 0x6CC, 0x686, 0x20, 0x62F, 0x627, 0x62F, 0x647, 0x200C,
      0x627, 0x6CC, 0x20, 0x6CC, 0x627, 0x641, 0x62A, 0x20, 0x646, 0x634, 0x62F, 0x21]"

definition title_sample :: pystr where
  "title_sample =
     [0x646, 0x645, 0x648, 0x646, 0x647, 0x200C, 0x647, 0x627, 0x6CC, 0x6CC, 0x20, 0x627,
      0x632, 0x20, 0x62F, 0x627, 0x62F, 0x647, 0x200C, 0x647, 0x627]"

definition msg_not_loaded :: pystr where
  "msg_not_loaded =
     [0x644, 0x637, 0x641, 0x627, 0x64B, 0x20, 0x627, 0x648, 0x644, 0x20, 0x2F, 0x73,
      0x74, 0x61, 0x72, 0x74, 0x20, 0x631, 0x627, 0x20, 0x628, 0x632, 0x646, 0x6CC,
      0x62F, 0x20, 0x62A, 0x627, 0x20, 0x62F, 0x627, 0x62F, 0x647, 0x200C, 0x647, 0x627,
      0x20, 0x628, 0x627, 0x631, 0x6AF, 0x630, 0x627, 0x631, 0x6CC, 0x20, 0x634, 0x648,
      0x646, 0x62F]"

definition msg_empty_query :: pystr where
  "msg_empty_query =
     [0x26A0, 0xFE0F, 0x20, 0x644, 0x637, 0x641, 0x627, 0x64B, 0x20, 0x67E, 0x633, 0x20,
      0x627, 0x632, 0x20, 0x2F, 0x73, 0x65, 0x61, 0x72, 0x63, 0x68, 0x20, 0x639,
      0x628, 0x627, 0x631, 0x62A, 0x20, 0x62C, 0x633, 0x62A, 0x62C, 0x648, 0x20, 0x631,
      0x627, 0x20, 0x648, 0x627, 0x631, 0x62F, 0x20, 0x6A9, 0x646, 0x6CC, 0x62F]"

definition help_text :: pystr where
  "help_text =
     [0x1F916, 0x20, 0x631, 0x628, 0x627, 0x62A, 0x20, 0x62F, 0x641, 0x62A, 0x631, 0x686,
      0x647, 0x20, 0x62A, 0x644, 0x641, 0x646, 0xA, 0xA, 0x62F, 0x633, 0x62A, 0x648,
      0x631, 0x627, 0x62A, 0x20, 0x645, 0x648, 0x62C, 0x648, 0x62F, 0x3A, 0xA, 0x2F,
      0x73, 0x74, 0x61, 0x72, 0x74, 0x20, 0x2D, 0x20, 0x646, 0x645, 0x627, 0x6CC,
      0x634, 0x20, 0x646, 0x645, 0x648, 0x646, 0x647, 0x200C, 0x647, 0x627, 0x6CC, 0x6CC,
      0x20, 0x627, 0x632, 0x20, 0x62F, 0x627, 0x62F, 0x647, 0x200C, 0x647, 0x627, 0xA,
      0x2F, 0x73, 0x65, 0x61, 0x72, 0x63, 0x68, 0x20, 0x5B, 0x639, 0x628, 0x627,
      0x631, 0x62A, 0x5D, 0x20, 0x2D, 0x20, 0x62C, 0x633, 0x62A, 0x62C, 0x648, 0x20,
      0x62F, 0x631, 0x20, 0x646, 0x627, 0x645, 0x20, 0x648, 0x20, 0x634, 0x645, 0x627,
      0x631, 0x647, 0x200C, 0x647, 0x627]"

definition not_found :: "pystr \<Rightarrow> pystr" where
  "not_found query =
     [0x1F50D, 0x20, 0x646, 0x62A, 0x6CC, 0x62C, 0x647, 0x200C, 0x627, 0x6CC, 0x20, 0x628,
      0x631, 0x627, 0x6CC, 0x20, 0x27] @
     query @ [0x27, 0x20, 0x6CC, 0x627, 0x641, 0x62A, 0x20, 0x646, 0x634, 0x62F]"

definition search_title :: "pystr \<Rightarrow> pystr" where
  "search_title query =
     [0x646, 0x62A, 0x627, 0x6CC, 0x62C, 0x20, 0x62C, 0x633, 0x62A, 0x62C, 0x648, 0x20,
      0x628, 0x631, 0x627, 0x6CC, 0x20, 0x27] @
     query @ [0x27]"

datatype outcome = Reply pystr | Raise sample_error

definition handle_start ::
  "file_read \<Rightarrow> mt_stream \<Rightarrow> bot_state \<Rightarrow> (outcome \<times> bot_state \<times> mt_stream) option" where
  "handle_start f s st =
     (case (if data_loaded st then (True, st) else load_data f st) of
        (ok, st1) \<Rightarrow>
          if \<not> ok then Some (Reply msg_load_error, st1, s)
          else if phone_data st1 = [] then Some (Reply msg_no_data, st1, s)
          else (case py_sample (phone_data st1) (min 5 (length (phone_data st1))) s of
                  None \<Rightarrow> None
                | Some (Inl e) \<Rightarrow> Some (Raise e, st1, s)
                | Some (Inr (samples, s')) \<Rightarrow>
                    Some (Reply (format_response samples title_sample), st1, s')))"

definition search_command :: pystr where
  "search_command = ascii ''/search''"

definition search_query :: "pystr \<Rightarrow> pystr" where
  "search_query text = py_strip (py_replace text search_command [])"

definition handle_search :: "pystr \<Rightarrow> bot_state \<Rightarrow> pystr" where
  "handle_search text st =
     (if \<not> data_loaded st then msg_not_loaded
      else (let query = search_query text in
            if query = [] then msg_empty_query
            else (let results = search_results query (phone_data st) in
                  if results = [] then not_found query
                  else format_response results (search_title query))))"

definition start_filter :: "pystr \<Rightarrow> bool" where
  "start_filter text \<longleftrightarrow> take 6 text = ascii ''/start'' \<and> re_end (drop 6 text)"

definition search_filter :: "pystr \<Rightarrow> bool" where
  "search_filter text \<longleftrightarrow> take 7 text = search_command"

datatype handler = Start_Handler | Search_Handler | Other_Handler

definition route :: "pystr \<Rightarrow> handler" where
  "route text =
     (if start_filter text then Start_Handler
      else if search_filter text then Search_Handler
      else Other_Handler)"

definition on_message ::
  "file_read \<Rightarrow> mt_stream \<Rightarrow> pystr \<Rightarrow> bot_state \<Rightarrow> (outcome \<times> bot_state \<times> mt_stream) option" where
  "on_message f s text st =
     (case route text of
        Start_Handler \<Rightarrow> handle_start f s st
      | Search_Handler \<Rightarrow> Some (Reply (handle_search text st), st, s)
      | Other_Handler \<Rightarrow> Some (Reply help_text, st, s))"

inductive bot_step :: "bot_state \<Rightarrow> bot_state \<Rightarrow> bool" where
  handled: "on_message f s text st = Some (out, st', s') \<Longrightarrow> bot_step st st'"

inductive reachable :: "bot_state \<Rightarrow> bool" where
  init: "reachable init_state"
| step: "reachable st \<Longrightarrow> bot_step st st' \<Longrightarrow> reachable st'"

text \<open>The invariant of the bot's state: every stored record is well-formed, and nothing is
  stored before the first successful load.\<close>

definition bot_inv :: "bot_state \<Rightarrow> bool" where
  "bot_inv st \<longleftrightarrow> list_all wf_contact (phone_data st) \<and> (\<not> data_loaded st \<longrightarrow> phone_data st = [])"

text \<open>The export of the scenario of the specification: one record line with two tabs and
  a header line.\<close>

abbreviation dina_file :: pystr where
  "dina_file \<equiv> ascii ''0501234567'' @ [TAB, TAB] @ ascii ''Dina Cohen'' @ [NL] @
                ascii ''=== Contacts ==='' @ [NL]"

abbreviation dina :: contact where
  "dina \<equiv> (ascii ''0501234567'', ascii ''Dina Cohen'')"

inductive_cases bot_stepE: "bot_step st st'"

subsection \<open>Replies read back by the Loader\<close>

lemma format_row_line:
  assumes "wf_contact r"
  shows "parse_line (format_row r @ [NL]) = Some r"
proof -
  obtain p n where r: "r = (p, n)" by (cases r)
  have wf: "wf_phone p" "wf_name n" using assms r by (simp_all add: wf_contact_def)
  have sp: "list_all py_isspace (replicate (15 - length p) SPACE)"
    by (simp add: list_all_iff py_isspace_def)
  have "parse_line (p @ replicate (15 - length p) SPACE @ replicate 1 TAB @ n) = Some (p, n)"
    using parse_line_padded[OF wf(1) sp wf(2), of 1] by simp
  then show ?thesis
    using parse_line_NL[of "p @ replicate (15 - length p) SPACE @ TAB # n"]
    by (simp add: r format_row_def py_ljust_def)
qed

lemma header_lines_dropped:
  "NL \<notin> set title \<Longrightarrow> List.map_filter parse_line (map (\<lambda>u. u @ [NL]) (header_lines title)) = []"
  by (simp add: header_lines_def parse_line_NL parse_line_blank parse_line_hd_not_class
      column_header_def phone_class_def pystr_defs)

lemma format_lines_clean:
  assumes "list_all wf_contact data" and "NL \<notin> set title" and "CR \<notin> set title"
  shows "list_all (\<lambda>u. NL \<notin> set u \<and> CR \<notin> set u) (header_lines title @ map format_row data)"
  using assms
  by (auto simp: list_all_iff header_lines_def column_header_def format_row_def py_ljust_def
      wf_contact_def wf_name_def)

lemma format_readback:
  assumes "list_all wf_contact data" and "NL \<notin> set title" and "CR \<notin> set title"
  shows "load_loop [] (py_readlines (format_response data title)) = data"
proof -
  let ?us = "header_lines title @ map format_row data"
  have "py_readlines (format_response data title) = map (\<lambda>u. u @ [NL]) ?us"
    unfolding format_response_lines by (rule readlines_lines[OF format_lines_clean[OF assms]])
  moreover have "List.map_filter parse_line (map (\<lambda>u. u @ [NL]) (map format_row data)) = data"
    using assms(1) by (induction data) (simp_all add: format_row_line)
  ultimately show ?thesis
    using header_lines_dropped[OF assms(2)] by (simp add: load_loop_eq)
qed

lemma message_readback:
  "m \<noteq> [] \<Longrightarrow> NL \<notin> set m \<Longrightarrow> CR \<notin> set m \<Longrightarrow> \<not> py_isspace (hd m) \<Longrightarrow>
   \<not> phone_class (hd m) \<Longrightarrow> load_loop [] (py_readlines m) = []"
  by (simp add: readlines_single parse_line_hd_not_class load_loop_eq)


subsection \<open>The state machine\<close>

lemma handle_start_state:
  "handle_start f s st = Some (out, st', s') \<Longrightarrow>
   st' = (if data_loaded st then st else snd (load_data f st))"
  by (auto simp: handle_start_def split: prod.splits if_splits option.splits sum.splits)

lemma bot_step_cases:
  "bot_step st st' \<Longrightarrow> st' = st \<or> (\<not> data_loaded st \<and> (\<exists>f. st' = snd (load_data f st)))"
  by (erule bot_stepE) (auto simp: on_message_def split: handler.splits dest!: handle_start_state)

lemma bot_inv_init: "bot_inv init_state"
  by (simp add: bot_inv_def init_state_def)

lemma bot_inv_load: "bot_inv st \<Longrightarrow> bot_inv (snd (load_data f st))"
  by (cases f) (simp_all add: load_data_def bot_inv_def load_wf)

lemma bot_step_inv: "bot_step st st' \<Longrightarrow> bot_inv st \<Longrightarrow> bot_inv st'"
  using bot_step_cases bot_inv_load by blast

lemma reachable_bot_inv: "reachable st \<Longrightarrow> bot_inv st"
proof (induction rule: reachable.induct)
  case init
  show ?case by (rule bot_inv_init)
next
  case (step st st')
  then show ?case by (blast intro: bot_step_inv)
qed

subsection \<open>The handlers\<close>

lemma list_all_mset_subset: "mset xs \<subseteq># mset ys \<Longrightarrow> list_all P ys \<Longrightarrow> list_all P xs"
  by (metis list_all_iff mset_subset_eqD set_mset_mset)

lemma handle_start_sample:
  assumes "bot_inv st" and "handle_start f s st = Some (out, st', s')" and "phone_data st' \<noteq> []"
  shows "\<exists>samples. out = Reply (format_response samples title_sample) \<and>
           length samples = min 5 (length (phone_data st')) \<and> mset samples \<subseteq># mset (phone_data st')"
proof -
  obtain ok st1 where l: "(if data_loaded st then (True, st) else load_data f st) = (ok, st1)"
    by fastforce
  have st1: "st' = st1" using handle_start_state[OF assms(2)] l by (auto split: if_splits)
  have ok: ok
  proof (rule ccontr)
    assume "\<not> ok"
    then have "st1 = st" and "\<not> data_loaded st" using l
      by (auto simp: load_data_def split: if_splits sum.splits)
    then show False using assms(1,3) st1 by (simp add: bot_inv_def)
  qed
  let ?d = "phone_data st1"
  have ne: "?d \<noteq> []" using assms(3) st1 by simp
  have "py_sample ?d (min 5 (length ?d)) s \<noteq> Some (Inl e)" for e
    by (simp add: py_sample_def Let_def)
  then obtain samples s1 where ps: "py_sample ?d (min 5 (length ?d)) s = Some (Inr (samples, s1))"
       and o: "out = Reply (format_response samples title_sample)"
    using assms(2) l ok ne
    by (auto simp: handle_start_def split: option.splits sum.splits)
  then show ?thesis using py_sample_InrD[OF ps] st1 by blast
qed

lemma handle_start_total:
  assumes "\<forall>w i. \<exists>j\<ge>i. s !! j = w" and "length (phone_data st) < 2 ^ 32"
    and "\<forall>t. f = Inr t \<longrightarrow> length t < 2 ^ 32"
  shows "\<exists>out st' s'. handle_start f s st = Some (out, st', s')"
proof -
  obtain ok st1 where l: "(if data_loaded st then (True, st) else load_data f st) = (ok, st1)"
    by fastforce
  have "length (phone_data st1) < 2 ^ 32"
    using l assms(2,3) length_load
    by (auto simp: load_data_def split: if_splits sum.splits intro: le_less_trans[OF length_load])
  then obtain r s1 where "py_sample (phone_data st1) (min 5 (length (phone_data st1))) s = Some (Inr (r, s1))"
    using py_sample_total[OF _ _ assms(1), of "min 5 (length (phone_data st1))" "phone_data st1"] by auto
  then show ?thesis using l by (auto simp: handle_start_def)
qed

lemma search_query_set: "set (search_query text) \<subseteq> set text"
  using py_strip_set set_py_replace[of "text" search_command "[]"] by (auto simp: search_query_def)

lemma search_results_take: "search_results q data = take 10 (filter (matches q) data)"
  by (simp add: search_results_def search_loop_take)

lemma handle_search_readback:
  assumes "bot_inv st" and "data_loaded st" and "search_query text \<noteq> []"
    and "NL \<notin> set text" and "CR \<notin> set text"
  shows "load_loop [] (py_readlines (handle_search text st)) =
           search_results (search_query text) (phone_data st)"
proof -
  let ?q = "search_query text"
  let ?r = "search_results ?q (phone_data st)"
  have q: "NL \<notin> set ?q" "CR \<notin> set ?q" using search_query_set assms(4,5) by auto
  show ?thesis
  proof (cases "?r = []")
    case True
    have "load_loop [] (py_readlines (not_found ?q)) = []"
      using q by (intro message_readback) (simp_all add: not_found_def phone_class_def pystr_defs)
    then show ?thesis using True assms(2,3) by (simp add: handle_search_def)
  next
    case False
    have "list_all wf_contact ?r"
      using assms(1) by (auto simp: bot_inv_def search_results_take list_all_iff dest: in_set_takeD)
    moreover have "NL \<notin> set (search_title ?q)" "CR \<notin> set (search_title ?q)"
      using q by (simp_all add: search_title_def)
    ultimately show ?thesis
      using False assms(2,3) format_readback by (simp add: handle_search_def Let_def)
  qed
qed

lemma on_message_total:
  assumes "\<forall>w i. \<exists>j\<ge>i. s !! j = w" and "length (phone_data st) < 2 ^ 32"
    and "\<forall>t. f = Inr t \<longrightarrow> length t < 2 ^ 32"
  shows "\<exists>out st' s'. on_message f s text st = Some (out, st', s')"
  using handle_start_total[OF assms] by (simp add: on_message_def split: handler.split)

lemma route_start: "route (ascii ''/start'') = Start_Handler"
  by (simp add: route_def start_filter_def re_end_def ascii_def)

lemma reachable_load:
  assumes "length t < 2 ^ 32"
  shows "reachable (snd (load_data (Inr t) init_state))"
proof -
  obtain out st' s' where h: "handle_start (Inr t) (siterate (\<lambda>w. w + 1) 0) init_state = Some (out, st', s')"
    using handle_start_total[OF counting_stream_recurring, of init_state "Inr t"] assms
    by (auto simp: init_state_def)
  then have "on_message (Inr t) (siterate (\<lambda>w. w + 1) 0) (ascii ''/start'') init_state = Some (out, st', s')"
    by (simp add: on_message_def route_start)
  then have "bot_step init_state st'" by (rule bot_step.handled)
  moreover have "st' = snd (load_data (Inr t) init_state)"
    using handle_start_state[OF h] by (simp add: init_state_def)
  ultimately show ?thesis using reachable.init reachable.step by blast
qed

lemma load_dina:
  "load_data (Inr dina_file) init_state = (True, \<lparr>data_loaded = True, phone_data = [dina]\<rparr>)"
  by (simp add: load_data_def init_state_def py_readlines_def load_loop_eq parse_line_def Let_def
      regex_defs pystr_defs lower_rules_def)

lemma reachable_dina: "reachable \<lparr>data_loaded = True, phone_data = [dina]\<rparr>"
proof -
  have "length dina_file < 2 ^ 32" by (simp add: ascii_def)
  from reachable_load[OF this] show ?thesis by (simp only: load_dina snd_conv)
qed

lemma search_query_skip:
  assumes "0x2F \<notin> set a"
  shows "py_replace (a @ s) search_command [] = a @ py_replace s search_command []"
proof -
  have "search_command \<noteq> []" "hd search_command = 0x2F"
    by (simp_all add: search_command_def ascii_def)
  then show ?thesis using assms by (simp add: py_replace_def replace_scan_skip)
qed

lemma search_query_command:
  "py_replace (search_command @ s) search_command [] = py_replace s search_command []"
  using py_replace_prefix[of search_command s "[]"] by (simp add: search_command_def ascii_def)

lemma mset_eq_if_subset_size:
  "mset xs \<subseteq># mset ys \<Longrightarrow> length xs = length ys \<Longrightarrow> mset xs = mset ys"
  by (metis mset_subset_size size_mset subset_mset.le_less less_irrefl)

subsection \<open>Properties\<close>

text \<open>C5: Invariant of the bot: in every state reachable from \<open>__init__\<close> by any sequence
  of updates, every stored record is well-formed (\<open>wf_contact\<close>), and no record is stored
  while \<open>data_loaded\<close> is false.\<close>

theorem reachable_invariant:
  "reachable st \<Longrightarrow>
   list_all wf_contact (phone_data st) \<and> (\<not> data_loaded st \<longrightarrow> phone_data st = [])"
  using reachable_bot_inv unfolding bot_inv_def by blast

theorem reachable_invariant_witness:
  "reachable \<lparr>data_loaded = True, phone_data = [dina]\<rparr> \<and>
   list_all wf_contact [dina]"
  using reachable_invariant[OF reachable_dina] reachable_dina by simp

text \<open>C9: Once the data is loaded the state never changes again: no update reloads the
  file or alters the records (the first successful \<open>load_data\<close> is the only one).\<close>

theorem loaded_state_frozen: "bot_step st st' \<Longrightarrow> data_loaded st \<Longrightarrow> st' = st"
  using bot_step_cases by blast

theorem loaded_state_frozen_witness:
  "bot_step \<lparr>data_loaded = True, phone_data = [dina]\<rparr> \<lparr>data_loaded = True, phone_data = [dina]\<rparr> \<and>
   data_loaded \<lparr>data_loaded = True, phone_data = [dina]\<rparr>"
proof -
  have h: "bot_step \<lparr>data_loaded = True, phone_data = [dina]\<rparr> \<lparr>data_loaded = True, phone_data = [dina]\<rparr>"
    by (rule bot_step.handled[of "Inl OSError" "sconst 0" "ascii ''hi''"])
      (simp add: on_message_def route_def start_filter_def search_filter_def search_command_def ascii_def)
  show ?thesis using loaded_state_frozen[OF h] h by simp
qed

text \<open>C3: Composition of the search handler with the Formatter and the Loader: in every
  reachable loaded state, for a one-line search text with a non-empty term, the records that
  the reply shows (read back by the Loader) are exactly the first ten records matching the
  term in stored order, the contract \<open>search_spec\<close>; with no match the reply is the
  not-found message, which shows none.\<close>

theorem search_reply_records:
  assumes "reachable st" and "data_loaded st" and "search_query text \<noteq> []"
    and "NL \<notin> set text" and "CR \<notin> set text"
  shows "load_loop [] (py_readlines (handle_search text st)) =
           search_spec (search_query text) (phone_data st)"
  using handle_search_readback[OF reachable_bot_inv[OF assms(1)] assms(2-5)]
  by (simp add: search_results_take search_spec_def)

theorem search_reply_records_witness:
  "reachable \<lparr>data_loaded = True, phone_data = [dina]\<rparr> \<and>
   data_loaded \<lparr>data_loaded = True, phone_data = [dina]\<rparr> \<and>
   search_query (ascii ''/search dina'') \<noteq> [] \<and>
   NL \<notin> set (ascii ''/search dina'') \<and> CR \<notin> set (ascii ''/search dina'') \<and>
   load_loop [] (py_readlines (handle_search (ascii ''/search dina'') \<lparr>data_loaded = True, phone_data = [dina]\<rparr>)) =
     search_spec (search_query (ascii ''/search dina'')) [dina]"
proof -
  have q: "search_query (ascii ''/search dina'') \<noteq> []"
    by (simp add: search_query_def search_command_def pystr_defs ascii_def)
  have n: "NL \<notin> set (ascii ''/search dina'')" "CR \<notin> set (ascii ''/search dina'')"
    by (simp_all add: ascii_def)
  show ?thesis
    using search_reply_records[OF reachable_dina _ q n] reachable_dina q n by simp
qed

text \<open>C4: The reply of \<open>/start\<close> in a reachable state that holds records is a formatted
  sample and never an exception: it shows \<open>min(5, len(phone_data))\<close> records, read back
  by the Loader exactly, each taken from the stored records no more often than it occurs
  there.\<close>

theorem start_reply_sample:
  assumes "reachable st" and "handle_start f s st = Some (out, st', s')" and "phone_data st' \<noteq> []"
  shows "\<exists>samples. out = Reply (format_response samples title_sample) \<and>
           load_loop [] (py_readlines (format_response samples title_sample)) = samples \<and>
           length samples = min 5 (length (phone_data st')) \<and> mset samples \<subseteq># mset (phone_data st')"
proof -
  have inv: "bot_inv st" using reachable_bot_inv[OF assms(1)] .
  obtain samples where sm: "out = Reply (format_response samples title_sample)"
      "length samples = min 5 (length (phone_data st'))" "mset samples \<subseteq># mset (phone_data st')"
    using handle_start_sample[OF inv assms(2,3)] by blast
  have "bot_inv st'"
    using handle_start_state[OF assms(2)] inv bot_inv_load by simp
  then have "list_all wf_contact samples"
    using sm(3) list_all_mset_subset by (auto simp: bot_inv_def)
  moreover have "NL \<notin> set title_sample" "CR \<notin> set title_sample"
    by (simp_all add: title_sample_def)
  ultimately show ?thesis using sm format_readback by blast
qed

theorem start_reply_sample_witness:
  "reachable init_state \<and>
   handle_start (Inr dina_file) (sconst 0) init_state =
     Some (Reply (format_response [dina] title_sample), \<lparr>data_loaded = True, phone_data = [dina]\<rparr>, sconst 0) \<and>
   phone_data \<lparr>data_loaded = True, phone_data = [dina]\<rparr> \<noteq> [] \<and>
   load_loop [] (py_readlines (format_response [dina] title_sample)) = [dina]"
proof -
  have h: "handle_start (Inr dina_file) (sconst 0) init_state =
     Some (Reply (format_response [dina] title_sample), \<lparr>data_loaded = True, phone_data = [dina]\<rparr>, sconst 0)"
  proof -
    have d: "data_loaded init_state = False" by (simp add: init_state_def)
    show ?thesis
      by (simp only: handle_start_def d if_False load_dina)
        (simp add: py_sample_def setsize_def randbelow_sconst0)
  qed
  have "\<exists>samples. Reply (format_response [dina] title_sample) = Reply (format_response samples title_sample) \<and>
      load_loop [] (py_readlines (format_response samples title_sample)) = samples \<and>
      length samples = min 5 (length [dina]) \<and> mset samples \<subseteq># mset [dina]"
    using start_reply_sample[OF reachable.init h] by simp
  then obtain samples where "format_response [dina] title_sample = format_response samples title_sample"
      "load_loop [] (py_readlines (format_response samples title_sample)) = samples"
      "length samples = 1" "mset samples \<subseteq># mset [dina]"
    by auto
  moreover from this(3,4) have "samples = [dina]"
    by (cases samples) (auto simp: subset_mset.le_iff_add)
  ultimately show ?thesis using h reachable.init by simp
qed

text \<open>C10: Liveness of the bot: on a generator stream in which every 32-bit word recurs,
  every text update is answered and handled to completion, whatever the state and the
  outcome of reading the file (for files and record sets below \<open>2 ^ 32\<close>).\<close>

theorem every_update_answered:
  assumes "\<forall>w i. \<exists>j\<ge>i. s !! j = w" and "length (phone_data st) < 2 ^ 32"
    and "\<forall>t. f = Inr t \<longrightarrow> length t < 2 ^ 32"
  shows "\<exists>out st' s'. on_message f s text st = Some (out, st', s')"
  using on_message_total[OF assms] .

theorem every_update_answered_witness:
  "(\<forall>w i. \<exists>j\<ge>i. siterate (\<lambda>w. w + 1) (0 :: 32 word) !! j = w) \<and>
   length (phone_data init_state) < 2 ^ 32 \<and>
   length dina_file < 2 ^ 32 \<and>
   (\<exists>out st' s'. on_message (Inr dina_file) (siterate (\<lambda>w. w + 1) 0) (ascii ''/start'') init_state =
      Some (out, st', s'))"
proof -
  have h2: "length (phone_data init_state) < 2 ^ 32" by (simp add: init_state_def)
  have h3: "\<forall>t. (Inr dina_file :: file_read) = Inr t \<longrightarrow> length t < 2 ^ 32" by (simp add: ascii_def)
  have h4: "length dina_file < 2 ^ 32" by (simp add: ascii_def)
  show ?thesis
    using every_update_answered[OF counting_stream_recurring h2 h3] counting_stream_recurring h2 h4
    by blast
qed

text \<open>C14: The routing of lines 14--16: \<open>handle_start\<close> receives exactly the texts
  \<open>/start\<close> and \<open>/start\<close> followed by one newline (the \<open>$\<close> of \<open>^/start$\<close>),
  \<open>handle_search\<close> every text that begins with \<open>/search\<close>, and the help text answers the
  rest.\<close>

theorem route_iff:
  "(route text = Start_Handler \<longleftrightarrow> text = ascii ''/start'' \<or> text = ascii ''/start'' @ [NL]) \<and>
   (route text = Search_Handler \<longleftrightarrow> take 7 text = ascii ''/search'')"
proof -
  have st: "start_filter text \<longleftrightarrow> text = ascii ''/start'' \<or> text = ascii ''/start'' @ [NL]"
  proof
    assume "start_filter text"
    then have "take 6 text = ascii ''/start''" and "drop 6 text = [] \<or> drop 6 text = [NL]"
      by (simp_all add: start_filter_def re_end_def)
    then show "text = ascii ''/start'' \<or> text = ascii ''/start'' @ [NL]"
      by (metis append_Nil2 append_take_drop_id)
  next
    assume "text = ascii ''/start'' \<or> text = ascii ''/start'' @ [NL]"
    then show "start_filter text" by (auto simp: start_filter_def re_end_def ascii_def)
  qed
  have "search_filter text \<Longrightarrow> \<not> start_filter text"
    by (auto simp: st search_filter_def search_command_def ascii_def)
  then show ?thesis using st
    by (auto simp: route_def search_filter_def search_command_def)
qed

text \<open>C13: Error path of \<open>/start\<close>: when the data is not loaded and the file cannot be
  opened or decoded, the reply is the load-failure message and the state and the generator
  are left unchanged, so a later \<open>/start\<close> tries the file again.\<close>

theorem start_load_failure:
  "\<not> data_loaded st \<Longrightarrow> handle_start (Inl e) s st = Some (Reply msg_load_error, st, s)"
  by (simp add: handle_start_def load_data_def)

theorem start_load_failure_witness:
  "\<not> data_loaded init_state \<and>
   handle_start (Inl OSError) (sconst 0) init_state = Some (Reply msg_load_error, init_state, sconst 0)"
  using start_load_failure[of init_state OSError "sconst 0"] by (simp add: init_state_def)

text \<open>C17: The search term of line 70: for a text \<open>/search\<close> followed by a rest without
  \<open>/\<close>, the term is the stripped rest, as the specification says; but every further
  \<open>/search\<close> in the text is removed as well, so \<open>/search a/search b\<close> (both parts
  without \<open>/\<close>) searches for \<open>a b\<close> with the second token cut out, not for the text after
  the command.\<close>

theorem search_query_tokens:
  assumes "0x2F \<notin> set a" and "0x2F \<notin> set b"
  shows "search_query (search_command @ a) = py_strip a \<and>
         search_query (search_command @ a @ search_command @ b) = py_strip (a @ b)"
proof -
  have "py_replace (search_command @ a) search_command [] = a"
    using search_query_skip[OF assms(1), of "[]"] search_query_command
    by (simp add: py_replace_def)
  moreover have "py_replace (search_command @ a @ search_command @ b) search_command [] = a @ b"
    using search_query_skip[OF assms(1), of "search_command @ b"] search_query_command[of b]
      search_query_skip[OF assms(2), of "[]"] search_query_command[of "a @ search_command @ b"]
    by (simp add: py_replace_def search_command_def ascii_def)
  ultimately show ?thesis by (simp add: search_query_def)
qed

theorem search_query_tokens_witness:
  "0x2F \<notin> set (ascii '' a'') \<and> 0x2F \<notin> set (ascii ''b'') \<and>
   search_query (search_command @ ascii '' a'') = py_strip (ascii '' a'') \<and>
   search_query (search_command @ ascii '' a'' @ search_command @ ascii ''b'') = py_strip (ascii '' ab'')"
proof -
  have h: "0x2F \<notin> set (ascii '' a'')" "0x2F \<notin> set (ascii ''b'')" by (simp_all add: ascii_def)
  show ?thesis using search_query_tokens[OF h] h by (simp add: ascii_def)
qed

text \<open>C18: With at most five stored records, the reply of \<open>/start\<close> shows every stored
  record exactly as often as it is stored (the sample is a permutation of the records).
  The Loader keeps repeated lines, so a file with a repeated record line gets a reply that
  repeats a record, where the specification asks for distinct records.\<close>

theorem start_shows_all_records:
  assumes "reachable st" and "handle_start f s st = Some (out, st', s')"
    and "phone_data st' \<noteq> []" and "length (phone_data st') \<le> 5"
  shows "\<exists>samples. out = Reply (format_response samples title_sample) \<and>
           mset samples = mset (phone_data st')"
proof -
  obtain samples where sm: "out = Reply (format_response samples title_sample)"
      "length samples = min 5 (length (phone_data st'))" "mset samples \<subseteq># mset (phone_data st')"
    using handle_start_sample[OF reachable_bot_inv[OF assms(1)] assms(2,3)] by blast
  then have "mset samples = mset (phone_data st')"
    using assms(4) by (intro mset_eq_if_subset_size) simp_all
  with sm(1) show ?thesis by blast
qed

theorem start_shows_all_records_witness:
  "reachable init_state \<and>
   handle_start (Inr (ascii ''0501234567'' @ [TAB] @ ascii ''Dina Cohen'' @ [NL] @
                      ascii ''0501234567'' @ [TAB] @ ascii ''Dina Cohen'' @ [NL])) (sconst 0) init_state =
     Some (Reply (format_response [dina, dina] title_sample),
           \<lparr>data_loaded = True, phone_data = [dina, dina]\<rparr>, sconst 0) \<and>
   (\<exists>samples. Reply (format_response [dina, dina] title_sample) = Reply (format_response samples title_sample) \<and>
      mset samples = mset [dina, dina])"
proof -
  have h: "handle_start (Inr (ascii ''0501234567'' @ [TAB] @ ascii ''Dina Cohen'' @ [NL] @
                      ascii ''0501234567'' @ [TAB] @ ascii ''Dina Cohen'' @ [NL])) (sconst 0) init_state =
     Some (Reply (format_response [dina, dina] title_sample),
           \<lparr>data_loaded = True, phone_data = [dina, dina]\<rparr>, sconst 0)"
    by (simp add: handle_start_def load_data_def init_state_def py_readlines_def load_loop_eq
        parse_line_def Let_def regex_defs pystr_defs lower_rules_def py_sample_def setsize_def
        randbelow_sconst0 numeral_2_eq_2)
  show ?thesis
    using start_shows_all_records[OF reachable.init h] h reachable.init by simp
qed

end
