(* ===== verification/Spec2Isabelle.thy ===== *)
theory Spec2Isabelle
  imports Handlers
begin

text \<open>
  A verification development for the contacts bot of \<open>src/bot.py\<close> (class
  \<open>PhoneBookBot\<close>): a chat bot that loads a tab-separated export of contacts
  (\<open>output_clean.txt\<close>) into memory, answers \<open>/start\<close> with a random sample of five
  records and \<open>/search term\<close> with up to ten records whose phone or name contains the
  term, ignoring case, and replies with a fixed help text otherwise.

  \<^bold>\<open>Parts of the program and where they are modelled.\<close>
  \<^item> \<open>Prelude\<close>: the types (\<open>pystr\<close>, a Python \<open>str\<close> as a list of code points;
    \<open>contact\<close>) and shared lemmas on lists.
  \<^item> Python's string builtins (\<open>PyStr\<close>): \<open>py_isspace\<close>, \<open>py_isdecimal\<close>,
    \<open>py_strip\<close>, \<open>py_lower\<close>, \<open>py_contains\<close> (the operator \<open>in\<close>), \<open>py_replace\<close>
    and \<open>py_ljust\<close> follow CPython 3.11 with its Unicode 14.0 tables, taken from the
    interpreter; the context-dependent final-sigma rule of \<open>str.lower\<close> is not modelled.
  \<^item> The regular expressions (\<open>Regex\<close>): sre's greedy matching with backtracking of a
    single-class repeat (\<open>try_splits\<close>, \<open>re_plus\<close>) and the two patterns of
    \<open>load_data\<close> (\<open>record_re\<close>, \<open>marker_re\<close>). The lemmas characterise a match
    completely: the phone group is the longest class run that is followed by a tab and a
    valid name.
  \<^item> The Loader (\<open>Loader\<close>): \<open>readlines()\<close> with universal newlines
    (\<open>py_readlines\<close>), one iteration of the loop of \<open>load_data\<close> (\<open>parse_line\<close>,
    lines 27--35) and the loop (\<open>load_loop\<close>, lines 25--35). Its lemmas: every
    well-formed line gives exactly its record, every record loaded is well-formed
    (\<open>wf_contact\<close>), rejected lines are dropped silently, the marker test is redundant,
    and the effect of a byte-order mark and of tabs inside the phone field.
  \<^item> The Store (\<open>Store\<close>): the record \<open>bot_state\<close> of the two attributes set in
    \<open>__init__\<close>, the state update of \<open>load_data\<close> with a read or decode failure as the
    value \<open>Inl\<close>, and the scan of \<open>handle_search\<close> (\<open>search_loop\<close>, lines 75--80),
    proved equal to its contract \<open>search_spec\<close> (the first ten matches in stored order).
  \<^item> The Formatter (\<open>Format\<close>): \<open>format_response\<close> (lines 98--110), its lines and
    their count.
  \<^item> Random sampling (\<open>Sampling\<close>): \<open>random.sample\<close> of CPython 3.11, called at
    line 58, with \<open>getrandbits\<close>, the rejection loop \<open>_randbelow_with_getrandbits\<close> and
    both branches of \<open>sample\<close>. The Mersenne Twister is abstracted to the stream of its
    32-bit outputs; every function returns the rest of the stream. A loop that may run
    forever is a \<open>partial_function (option)\<close> (\<open>None\<close>: never returns). Lemmas:
    bounds of the draws, a returned sample has \<open>k\<close> elements and is a sub-multiset of the
    population, and the sampler returns on every stream in which each 32-bit word recurs.
  \<^item> The handlers and the dispatch (\<open>Handlers\<close>): \<open>handle_start\<close>,
    \<open>handle_search\<close> and the help text with the exact code points of their replies; the
    filters of lines 14--16 (\<open>route\<close>); one update handled to completion
    (\<open>on_message\<close>); the step relation \<open>bot_step\<close> and the reachable states
    \<open>reachable\<close>. Lemmas: the invariant \<open>bot_inv\<close> of every reachable state, the
    state never changes once loaded, the reply of a search shows exactly the first ten
    matches, the reply of \<open>/start\<close> is a sample of the stored records (all of them, with
    their repetitions, when there are at most five), every update is answered, and the
    search term removes every \<open>/search\<close> of the text.
  \<^item> This theory: the round trip from the Formatter through the Loader.

  \<^bold>\<open>Behaviours the modelling exposed\<close> (each a general theorem): a file with a
  byte-order mark loses its first record (\<open>Loader.bom_drops_first_record\<close>); a tab-separated
  field of phone characters joins the phone (\<open>Loader.phone_absorbs_tab_field\<close>); every
  \<open>/search\<close> of the text is removed from the term (\<open>Handlers.search_query_tokens\<close>); a
  repeated record line is shown twice by \<open>/start\<close>
  (\<open>Handlers.start_shows_all_records\<close>); \<open>/start\<close> followed by a newline is routed to
  \<open>handle_start\<close> (\<open>Handlers.route_iff\<close>); the response has an empty line after the title
  (\<open>Format.format_line_count\<close>).

  \<^bold>\<open>Bounds.\<close> No fuel is used: the loops over lists are structural recursion, and the
  two rejection loops of \<open>random.sample\<close> are partial functions whose termination is
  proved where it holds. Liveness is proved for populations and files below \<open>2 ^ 32\<close>
  elements, so that \<open>_randbelow\<close> draws at most 32 bits, one word per draw; the bot's
  sample has at most five elements.

  \<^bold>\<open>Interleaving.\<close> The handlers are coroutines, but no \<open>await\<close> comes before the
  state update of \<open>handle_start\<close> (\<open>load_data\<close> is synchronous), so each update is one
  atomic step of \<open>bot_step\<close>; the replies (\<open>await update.reply\<close>) are its outputs.

  \<^bold>\<open>Not modelled.\<close> The messaging transport of \<open>rubpy\<close> (\<open>Client\<close>,
  \<open>update.reply\<close>, \<open>run\<close>), which only carries text in and out, and updates that are
  not text; which handler runs when several filters accept a text is \<open>rubpy\<close>'s choice
  and is modelled as the first in registration order, as the specification gives it; the
  console output of \<open>print\<close>; the internal state of the Mersenne Twister and the UTF-8
  decoder (the model takes their output: a word stream, and decoded text or a decode
  error).
\<close>

subsection \<open>Properties\<close>

text \<open>C7: Round trip: the text that \<open>format_response\<close> produces for loaded records, read
  back by the Loader, gives exactly those records in the same order (the title line, the
  empty line, the column header and the divider are all dropped), for any title without a
  line break.\<close>

theorem format_load_roundtrip:
  assumes "list_all wf_contact data" and "NL \<notin> set title" and "CR \<notin> set title"
  shows "load_loop [] (py_readlines (format_response data title)) = data"
  using format_readback[OF assms] .

theorem format_load_roundtrip_witness:
  "list_all wf_contact [(ascii ''0501234567'', ascii ''Dina Cohen'')] \<and>
   NL \<notin> set (ascii ''dina'') \<and> CR \<notin> set (ascii ''dina'') \<and>
   load_loop [] (py_readlines (format_response [(ascii ''0501234567'', ascii ''Dina Cohen'')] (ascii ''dina''))) =
     [(ascii ''0501234567'', ascii ''Dina Cohen'')]"
proof -
  have h1: "list_all wf_contact [(ascii ''0501234567'', ascii ''Dina Cohen'')]"
    by (simp add: wf_contact_def wf_phone_def wf_name_def phone_class_def pystr_defs)
  have h2: "NL \<notin> set (ascii ''dina'')" and h3: "CR \<notin> set (ascii ''dina'')"
    by (simp_all add: ascii_def)
  show ?thesis using format_load_roundtrip[OF h1 h2 h3] h1 h2 h3 by simp
qed

end
